theory Spec2Isabelle
  imports Main "HOL-Library.Sublist"
begin

section \<open>Strings and characters\<close>

text \<open>
  A Python \<open>str\<close> is a sequence of Unicode code points. A code point is modelled as a
  natural number and a \<open>str\<close> as a list of them, so that \<open>\s\<close> and \<open>str.strip\<close> see the
  same characters as in Python. The function \<open>s\<close> turns an ASCII literal into such a list.
\<close>

type_synonym pychar = nat
type_synonym pystr = "pychar list"

definition s :: "string \<Rightarrow> pystr" where
  "s lit = map of_char lit"

text \<open>
  The characters for which \<open>str.isspace\<close> holds, which are also the ones matched by
  \<open>\s\<close> in a \<open>str\<close> pattern and removed by \<open>str.strip()\<close>: U+0009..U+000D,
  U+001C..U+0020, U+0085, U+00A0, U+1680, U+2000..U+200A, U+2028, U+2029, U+202F, U+205F
  and U+3000.
\<close>

definition is_space :: "pychar \<Rightarrow> bool" where
  "is_space c \<longleftrightarrow>
     (9 \<le> c \<and> c \<le> 13) \<or> (28 \<le> c \<and> c \<le> 32) \<or> c = 133 \<or> c = 160 \<or> c = 5760 \<or>
     (8192 \<le> c \<and> c \<le> 8202) \<or> c = 8232 \<or> c = 8233 \<or> c = 8239 \<or> c = 8287 \<or> c = 12288"

text \<open>The two quote characters of the class \<open>['\"]\<close>: U+0027 and U+0022.\<close>

definition is_quote :: "pychar \<Rightarrow> bool" where
  "is_quote c \<longleftrightarrow> c = 39 \<or> c = 34"

text \<open>The line feed, the only character after which \<open>^\<close> matches under \<open>re.M\<close>.\<close>

definition is_newline :: "pychar \<Rightarrow> bool" where
  "is_newline c \<longleftrightarrow> c = 10"

definition strip :: "pystr \<Rightarrow> pystr" where
  "strip xs = rev (dropWhile is_space (rev (dropWhile is_space xs)))"


section \<open>The regular expressions of \<open>update_util_version\<close>\<close>

text \<open>
  The two patterns use a start-of-line anchor, literals, three character classes, the
  greedy repetitions \<open>*\<close> and \<open>+\<close> of a class, and four capturing groups that follow one
  another and cover the whole pattern. A pattern is the list of its groups, a group the
  list of its atoms.
\<close>

datatype cls = Space | Quote | NotQuote

fun cls_ok :: "cls \<Rightarrow> pychar \<Rightarrow> bool" where
  "cls_ok Space c = is_space c"
| "cls_ok Quote c = is_quote c"
| "cls_ok NotQuote c = (\<not> is_quote c)"

datatype atom = Bol | Lit pystr | One cls | Star cls | Plus cls

type_synonym regex = "atom list list"

text \<open>
  \<open>(^\s*version\s*=\s*)(['\"])([^'\"]+)(['\"])\<close> compiled with \<open>re.M\<close>, and
  \<open>(['\"]version['\"]\s*:\s*)(['\"])([^'\"]+)(['\"])\<close>.
\<close>

definition assign_re :: regex where
  "assign_re =
     [[Bol, Star Space, Lit (s ''version''), Star Space, Lit (s ''=''), Star Space],
      [One Quote], [Plus NotQuote], [One Quote]]"

definition dict_re :: regex where
  "dict_re =
     [[One Quote, Lit (s ''version''), One Quote, Star Space, Lit (s '':''), Star Space],
      [One Quote], [Plus NotQuote], [One Quote]]"

text \<open>The three groups shared by the two patterns: \<open>(['\"])([^'\"]+)(['\"])\<close>.\<close>

definition tail_gs :: "atom list list" where
  "tail_gs = [[One Quote], [Plus NotQuote], [One Quote]]"

text \<open>
  The texts the first group of each pattern matches: \<open>\s*version\s*=\s*\<close> and
  \<open>['\"]version['\"]\s*:\s*\<close>.
\<close>

definition key_assign :: "pystr \<Rightarrow> bool" where
  "key_assign g \<longleftrightarrow>
     (\<exists>w1 w2 w3. g = w1 @ s ''version'' @ w2 @ s ''='' @ w3 \<and>
        list_all is_space w1 \<and> list_all is_space w2 \<and> list_all is_space w3)"

definition key_dict :: "pystr \<Rightarrow> bool" where
  "key_dict g \<longleftrightarrow>
     (\<exists>qx qy w2 w3. g = qx # s ''version'' @ qy # w2 @ s '':'' @ w3 \<and>
        is_quote qx \<and> is_quote qy \<and> list_all is_space w2 \<and> list_all is_space w3)"

text \<open>
  The backtracking matcher. \<open>mg as gs bol r\<close> matches the atoms \<open>as\<close> that remain of the
  current group, then the groups \<open>gs\<close>, at the front of \<open>r\<close>; \<open>bol\<close> says whether the
  position is the start of the text or follows a line feed (\<open>bol_after\<close> gives it after
  the text \<open>l\<close> has been consumed). The result is the text
  captured by the rest of the current group, the captures of the later groups and the
  text after the match. A repetition tries one more character first and falls back to
  the rest of the pattern when that fails, as the greedy operators of \<open>re\<close> do.
\<close>

definition bol_after :: "bool \<Rightarrow> pystr \<Rightarrow> bool" where
  "bol_after bol l = (if l = [] then bol else is_newline (last l))"

function mg :: "atom list \<Rightarrow> atom list list \<Rightarrow> bool \<Rightarrow> pystr \<Rightarrow> (pystr \<times> pystr list \<times> pystr) option"
  where
  "mg [] [] bol r = Some ([], [], r)"
| "mg [] (g # gs) bol r =
     (case mg g gs bol r of
        None \<Rightarrow> None
      | Some (c, cs, r') \<Rightarrow> Some ([], c # cs, r'))"
| "mg (Bol # as) gs bol r = (if bol then mg as gs bol r else None)"
| "mg (Lit l # as) gs bol r =
     (if prefix l r then
        (case mg as gs (bol_after bol l) (drop (length l) r) of
           None \<Rightarrow> None
         | Some (c, cs, r') \<Rightarrow> Some (l @ c, cs, r'))
      else None)"
| "mg (One k # as) gs bol r =
     (case r of
        [] \<Rightarrow> None
      | x # xs \<Rightarrow>
          if cls_ok k x then
            (case mg as gs (is_newline x) xs of
               None \<Rightarrow> None
             | Some (c, cs, r') \<Rightarrow> Some (x # c, cs, r'))
          else None)"
| "mg (Star k # as) gs bol r =
     (case r of
        [] \<Rightarrow> mg as gs bol r
      | x # xs \<Rightarrow>
          if cls_ok k x then
            (case mg (Star k # as) gs (is_newline x) xs of
               Some (c, cs, r') \<Rightarrow> Some (x # c, cs, r')
             | None \<Rightarrow> mg as gs bol r)
          else mg as gs bol r)"
| "mg (Plus k # as) gs bol r =
     (case r of
        [] \<Rightarrow> None
      | x # xs \<Rightarrow>
          if cls_ok k x then
            (case mg (Star k # as) gs (is_newline x) xs of
               None \<Rightarrow> None
             | Some (c, cs, r') \<Rightarrow> Some (x # c, cs, r'))
          else None)"
  by pat_completeness auto
termination
  by (relation "measures [\<lambda>(as, gs, bol, r). length r,
                          \<lambda>(as, gs, bol, r). length as + sum_list (map (\<lambda>g. Suc (length g)) gs)]")
     auto

text \<open>An attempt to match a whole pattern at one position: the captures and the rest.\<close>

definition match_here :: "regex \<Rightarrow> bool \<Rightarrow> pystr \<Rightarrow> (pystr list \<times> pystr) option" where
  "match_here re bol r =
     (case re of
        [] \<Rightarrow> Some ([], r)
      | g # gs \<Rightarrow>
          (case mg g gs bol r of
             None \<Rightarrow> None
           | Some (c, cs, r') \<Rightarrow> Some (c # cs, r')))"

text \<open>
  \<open>pattern.search\<close>: the attempt is made at every position from the left, and the first
  position where it succeeds gives the match. The result is the text before the match,
  the captured groups 1, 2, ... and the text after the match.
\<close>

fun search_from :: "regex \<Rightarrow> bool \<Rightarrow> pystr \<Rightarrow> (pystr \<times> pystr list \<times> pystr) option" where
  "search_from re bol r =
     (case match_here re bol r of
        Some (gs, post) \<Rightarrow> Some ([], gs, post)
      | None \<Rightarrow>
          (case r of
             [] \<Rightarrow> None
           | x # xs \<Rightarrow>
               (case search_from re (is_newline x) xs of
                  None \<Rightarrow> None
                | Some (pre, gs, post) \<Rightarrow> Some (x # pre, gs, post))))"

definition search :: "regex \<Rightarrow> pystr \<Rightarrow> (pystr \<times> pystr list \<times> pystr) option" where
  "search re txt = search_from re True txt"

text \<open>\<open>m.group(n)\<close> for \<open>n \<ge> 1\<close>; both patterns have four groups.\<close>

definition group :: "pystr list \<Rightarrow> nat \<Rightarrow> pystr" where
  "group gs n = gs ! (n - 1)"

text \<open>
  \<open>pattern.sub(repl, txt, count=1)\<close> with a function \<open>repl\<close>: the first match is replaced
  by what \<open>repl\<close> returns for it, and the text is returned as it is when nothing matches.
\<close>

definition sub1 :: "regex \<Rightarrow> (pystr list \<Rightarrow> pystr) \<Rightarrow> pystr \<Rightarrow> pystr" where
  "sub1 re repl txt =
     (case search re txt of
        None \<Rightarrow> txt
      | Some (pre, gs, post) \<Rightarrow> pre @ repl gs @ post)"

section \<open>The world of the script\<close>

text \<open>
  What the script reads and changes: the text of \<open>plugin/util.py\<close>, the git repository
  behind the \<open>git\<close> command line, and the two output streams. The file is held as the
  sequence of characters stored in it (\<open>None\<close> when it cannot be opened or is not valid
  UTF-8). Git is an external collaborator: the world holds whether the working tree has
  uncommitted changes, what \<open>git status --porcelain\<close> answers (exit status and standard
  output) and, for every other command, the exit status it returns after a given history
  of events.
\<close>

type_synonym cmd = "pystr list"

datatype event = Git cmd | ReadFile | WriteFile pystr

datatype exn =
    SystemExit int
  | OSError
  | UnicodeEncodeError
  | CalledProcessError cmd int

text \<open>A printed line: plain text, or text followed by the rendering of an exception.\<close>

datatype line = Text pystr | TextExc pystr exn

record world =
  util_path :: pystr
  util_file :: "pystr option"
  writable :: bool
  tree_dirty :: bool
  status_rc :: int
  status_out :: pystr
  git_rc :: "event list \<Rightarrow> cmd \<Rightarrow> int"
  trace :: "event list"
  out :: "pystr list"
  err :: "line list"

record args =
  version :: pystr
  annotated :: bool
  push :: bool
  allow_dirty :: bool
  tag_name :: "pystr option"

definition print_out :: "pystr \<Rightarrow> world \<Rightarrow> world" where
  "print_out l w = w\<lparr>out := out w @ [l]\<rparr>"

definition print_err :: "line \<Rightarrow> world \<Rightarrow> world" where
  "print_err l w = w\<lparr>err := err w @ [l]\<rparr>"

definition log_event :: "event \<Rightarrow> world \<Rightarrow> world" where
  "log_event e w = w\<lparr>trace := trace w @ [e]\<rparr>"

text \<open>
  \<open>run(cmd)\<close> is \<open>subprocess.run(cmd, check=True)\<close>: a non-zero exit status raises
  \<open>CalledProcessError\<close>.
\<close>

definition run :: "cmd \<Rightarrow> world \<Rightarrow> (exn + unit) \<times> world" where
  "run c w =
     (let rc = git_rc w (trace w) c; w' = log_event (Git c) w
      in if rc = 0 then (Inr (), w') else (Inl (CalledProcessError c rc), w'))"

text \<open>
  \<open>git_is_clean\<close> runs the status query without \<open>check=True\<close> and looks only at its
  standard output.
\<close>

definition git_is_clean :: "world \<Rightarrow> bool \<times> world" where
  "git_is_clean w =
     (strip (status_out w) = [],
      log_event (Git [s ''git'', s ''status'', s ''--porcelain'']) w)"

text \<open>
  \<open>read_text\<close> opens the file in text mode with universal newlines: \<open>\r\n\<close> and a lone
  \<open>\r\<close> are read as \<open>\n\<close>. The flag of \<open>universal_newlines\<close> says that the character
  before was a carriage return.
\<close>

fun universal_newlines :: "bool \<Rightarrow> pystr \<Rightarrow> pystr" where
  "universal_newlines cr [] = []"
| "universal_newlines cr (x # xs) =
     (if x = 13 then 10 # universal_newlines True xs
      else if x = 10 \<and> cr then universal_newlines False xs
      else x # universal_newlines False xs)"

definition read_text :: "world \<Rightarrow> (exn + pystr) \<times> world" where
  "read_text w =
     (case util_file w of
        None \<Rightarrow> (Inl OSError, log_event ReadFile w)
      | Some raw \<Rightarrow> (Inr (universal_newlines False raw), log_event ReadFile w))"

text \<open>
  \<open>write_text\<close> opens the file for writing, which empties it, and then encodes the text:
  a surrogate code point (U+D800..U+DFFF, which a command-line argument can hold) cannot
  be encoded as UTF-8 and raises \<open>UnicodeEncodeError\<close>, leaving the file empty. On the
  POSIX systems the script is written for, \<open>\n\<close> is written as it is.
\<close>

definition is_surrogate :: "pychar \<Rightarrow> bool" where
  "is_surrogate c \<longleftrightarrow> 55296 \<le> c \<and> c \<le> 57343"

definition write_text :: "pystr \<Rightarrow> world \<Rightarrow> (exn + unit) \<times> world" where
  "write_text txt w =
     (if \<not> writable w then (Inl OSError, w)
      else if list_ex is_surrogate txt then
        (Inl UnicodeEncodeError, log_event (WriteFile []) (w\<lparr>util_file := Some []\<rparr>))
      else (Inr (), log_event (WriteFile txt) (w\<lparr>util_file := Some txt\<rparr>)))"


section \<open>\<open>update_util_version\<close>\<close>

text \<open>
  The body shared by the two branches: with the match \<open>m\<close> of pattern \<open>re\<close> in \<open>txt\<close>,
  compare the captured value with the new version, and either report that nothing
  changes or substitute the first match and write the file.
\<close>

definition repl :: "pystr \<Rightarrow> pystr list \<Rightarrow> pystr" where
  "repl new_version gs = group gs 1 @ group gs 2 @ new_version @ group gs 4"

definition rewrite_with ::
  "regex \<Rightarrow> pystr list \<Rightarrow> pystr \<Rightarrow> pystr \<Rightarrow> world \<Rightarrow> (exn + bool) \<times> world" where
  "rewrite_with re gs txt new_version w =
     (let current = group gs 3 in
      if current = new_version then
        (Inr False, print_out (s ''util.version already '' @ new_version) w)
      else
        (let new_txt = sub1 re (repl new_version) txt in
         case write_text new_txt w of
           (Inl e, w') \<Rightarrow> (Inl e, w')
         | (Inr _, w') \<Rightarrow>
             (Inr True,
              print_out (s ''updated '' @ util_path w' @ s '' version '' @ current @
                         s '' -> '' @ new_version) w')))"

definition update_util_version :: "pystr \<Rightarrow> world \<Rightarrow> (exn + bool) \<times> world" where
  "update_util_version new_version w =
     (case read_text w of
        (Inl e, w') \<Rightarrow> (Inl e, w')
      | (Inr txt, w') \<Rightarrow>
          (case search assign_re txt of
             Some (pre, gs, post) \<Rightarrow> rewrite_with assign_re gs txt new_version w'
           | None \<Rightarrow>
               (case search dict_re txt of
                  Some (pre, gs, post) \<Rightarrow> rewrite_with dict_re gs txt new_version w'
                | None \<Rightarrow>
                    (Inl (SystemExit 2),
                     print_err (Text (s ''failed to locate a '' @ [39] @ s ''version'' @ [39] @
                                      s '' entry in '' @ util_path w' @
                                      s ''; please update manually'')) w'))))"


section \<open>\<open>main\<close>\<close>

text \<open>\<open>args.tag_name or args.version\<close>: an absent or empty tag name gives the version.\<close>

definition the_tag_name :: "args \<Rightarrow> pystr" where
  "the_tag_name a =
     (case tag_name a of
        None \<Rightarrow> version a
      | Some t \<Rightarrow> if t = [] then version a else t)"

definition tag_cmd :: "args \<Rightarrow> cmd" where
  "tag_cmd a =
     (if annotated a then
        [s ''git'', s ''tag'', s ''-a'', the_tag_name a, s ''-m'', s ''Release '' @ the_tag_name a]
      else [s ''git'', s ''tag'', the_tag_name a])"

definition add_cmd :: "world \<Rightarrow> cmd" where
  "add_cmd w = [s ''git'', s ''add'', util_path w]"

definition commit_cmd :: "args \<Rightarrow> cmd" where
  "commit_cmd a = [s ''git'', s ''commit'', s ''-m'', s ''Bump version to '' @ version a]"

definition push_head_cmd :: cmd where
  "push_head_cmd = [s ''git'', s ''push'', s ''origin'', s ''HEAD'']"

definition push_tag_cmd :: "args \<Rightarrow> cmd" where
  "push_tag_cmd a = [s ''git'', s ''push'', s ''origin'', the_tag_name a]"

text \<open>Sequencing inside the second \<open>try\<close> block: the first exception ends the block.\<close>

definition and_then ::
  "(exn + unit) \<times> world \<Rightarrow> (world \<Rightarrow> (exn + unit) \<times> world) \<Rightarrow> (exn + unit) \<times> world" where
  "and_then r f = (case r of (Inl e, w) \<Rightarrow> (Inl e, w) | (Inr _, w) \<Rightarrow> f w)"

definition commit_stage :: "args \<Rightarrow> bool \<Rightarrow> world \<Rightarrow> (exn + unit) \<times> world" where
  "commit_stage a changed w =
     (if changed then
        and_then (run (add_cmd w) w) (\<lambda>w1.
        and_then (run (commit_cmd a) w1) (\<lambda>w2.
        (Inr (), print_out (s ''committed util.py change'') w2)))
      else (Inr (), print_out (s ''no util.py change to commit'') w))"

definition tag_stage :: "args \<Rightarrow> world \<Rightarrow> (exn + unit) \<times> world" where
  "tag_stage a w =
     and_then (run (tag_cmd a) w) (\<lambda>w1.
     (Inr (), print_out (s ''created tag '' @ the_tag_name a) w1))"

definition push_stage :: "args \<Rightarrow> world \<Rightarrow> (exn + unit) \<times> world" where
  "push_stage a w =
     (if push a then
        and_then (run push_head_cmd w) (\<lambda>w1.
        and_then (run (push_tag_cmd a) w1) (\<lambda>w2.
        (Inr (), print_out (s ''pushed HEAD and tag to origin'') w2)))
      else (Inr (), w))"

text \<open>
  The second \<open>try\<close> block of \<open>main\<close>: commit, tag, push; a \<open>CalledProcessError\<close> is
  reported and ends the script with status 1, any other exception leaves the block.
\<close>

definition git_stages :: "args \<Rightarrow> bool \<Rightarrow> world \<Rightarrow> (exn + unit) \<times> world" where
  "git_stages a changed w =
     (case and_then (commit_stage a changed w) (\<lambda>w1.
           and_then (tag_stage a w1) (\<lambda>w2. push_stage a w2)) of
        (Inl (CalledProcessError c rc), w') \<Rightarrow>
          (Inl (SystemExit 1),
           print_err (TextExc (s ''git command failed:'') (CalledProcessError c rc)) w')
      | r \<Rightarrow> r)"

text \<open>
  The first \<open>try\<close> block: \<open>SystemExit\<close> is raised again, any other exception is reported
  and ends the script with status 1.
\<close>

definition update_stage :: "args \<Rightarrow> world \<Rightarrow> (exn + bool) \<times> world" where
  "update_stage a w =
     (case update_util_version (version a) w of
        (Inl (SystemExit n), w') \<Rightarrow> (Inl (SystemExit n), w')
      | (Inl e, w') \<Rightarrow>
          (Inl (SystemExit 1), print_err (TextExc (s ''failed to update util.py:'') e) w')
      | (Inr changed, w') \<Rightarrow> (Inr changed, w'))"

text \<open>
  The precondition gate: the status query runs only without \<open>--allow-dirty\<close>, and a tree
  that is not clean ends the script with status 1.
\<close>

definition clean_gate :: "args \<Rightarrow> world \<Rightarrow> (exn + unit) \<times> world" where
  "clean_gate a w =
     (if \<not> allow_dirty a then
        (case git_is_clean w of
           (clean, w') \<Rightarrow>
             if \<not> clean then
               (Inl (SystemExit 1),
                print_err (Text (s ''working tree is not clean; commit or use --allow-dirty'')) w')
             else (Inr (), w'))
      else (Inr (), w))"

definition main_body :: "args \<Rightarrow> world \<Rightarrow> (exn + unit) \<times> world" where
  "main_body a w =
     (case clean_gate a w of
        (Inl e, w') \<Rightarrow> (Inl e, w')
      | (Inr _, w') \<Rightarrow>
          (case update_stage a w' of
             (Inl e, w'') \<Rightarrow> (Inl e, w'')
           | (Inr changed, w'') \<Rightarrow> git_stages a changed w''))"

text \<open>
  The exit status of the process: 0 when \<open>main\<close> returns, the argument of \<open>SystemExit\<close>
  when it is raised, and 1 when another exception escapes.
\<close>

definition main :: "args \<Rightarrow> world \<Rightarrow> int \<times> world" where
  "main a w =
     (case main_body a w of
        (Inr _, w') \<Rightarrow> (0, w')
      | (Inl (SystemExit n), w') \<Rightarrow> (n, w')
      | (Inl e, w') \<Rightarrow> (1, w'))"


section \<open>Concrete worlds and invocations\<close>

text \<open>
  A clean repository in which every git command succeeds and \<open>plugin/util.py\<close> holds the
  characters \<open>txt\<close>, and the invocation \<open>tag_release.py v\<close> with no option.
\<close>

definition demo_world :: "pystr \<Rightarrow> world" where
  "demo_world txt =
     \<lparr>util_path = s ''plugin/util.py'', util_file = Some txt, writable = True,
      tree_dirty = False, status_rc = 0, status_out = [], git_rc = (\<lambda>h c. 0), trace = [], out = [], err = []\<rparr>"

text \<open>A repository in which every git command fails with exit status 128.\<close>

definition git_fails :: "event list \<Rightarrow> cmd \<Rightarrow> int" where
  "git_fails h c = 128"

definition demo_args :: "pystr \<Rightarrow> args" where
  "demo_args v =
     \<lparr>version = v, annotated = False, push = False, allow_dirty = False, tag_name = None\<rparr>"

lemmas io_defs = print_out_def print_err_def log_event_def run_def git_is_clean_def
  read_text_def write_text_def and_then_def

lemmas char_defs = s_def is_space_def is_quote_def is_newline_def

lemmas main_defs = main_def main_body_def clean_gate_def update_stage_def
  update_util_version_def rewrite_with_def git_stages_def commit_stage_def tag_stage_def
  push_stage_def the_tag_name_def tag_cmd_def add_cmd_def commit_cmd_def push_head_cmd_def
  push_tag_cmd_def sub1_def repl_def group_def

lemmas stage_defs = main_def main_body_def update_stage_def
  update_util_version_def rewrite_with_def git_stages_def commit_stage_def tag_stage_def
  push_stage_def

lemmas re_defs = search_def match_here_def assign_re_def dict_re_def strip_def
  is_surrogate_def


section \<open>Properties of the matcher\<close>

text \<open>
  A greedy repetition whose continuation rejects every character of the class consumes
  the longest run of the class: nothing is gained by giving characters back.
\<close>

lemma bol_after_Nil [simp]: "bol_after b [] = b"
  by (simp add: bol_after_def)

lemma bol_after_Cons: "bol_after b (x # xs) = bol_after (is_newline x) xs"
  by (simp add: bol_after_def)

lemma star_skip:
  assumes rej: "\<And>b x xs. cls_ok k x \<Longrightarrow> mg as gs b (x # xs) = None"
  shows "mg (Star k # as) gs bol r =
           (case mg as gs (bol_after bol (takeWhile (cls_ok k) r)) (dropWhile (cls_ok k) r) of
              None \<Rightarrow> None
            | Some (c, cs, r') \<Rightarrow> Some (takeWhile (cls_ok k) r @ c, cs, r'))"
proof (induction r arbitrary: bol)
  case Nil
  show ?case by (simp split: option.splits)
next
  case (Cons x xs)
  show ?case
  proof (cases "cls_ok k x")
    case True
    then show ?thesis
      using Cons.IH [of "is_newline x"] rej [of x bol xs]
      by (simp add: bol_after_Cons split: option.splits)
  next
    case False
    then show ?thesis by (simp split: option.splits)
  qed
qed

lemma space_not_quote: "is_space x \<Longrightarrow> \<not> is_quote x"
  by (auto simp: is_space_def is_quote_def)

lemma dropWhile_Cons_D:
  "dropWhile P xs = y # ys \<Longrightarrow> \<not> P y \<and> y \<in> set xs \<and> xs = takeWhile P xs @ y # ys"
  by (metis dropWhile_eq_Cons_conv in_set_conv_decomp takeWhile_dropWhile_id)

text \<open>
  The three groups that end both patterns: a quote, the longest non-empty run without a
  quote, and the quote that ends the run.
\<close>

lemma mg_value:
  "mg [Plus NotQuote] [[One Quote]] b r =
     (case r of [] \<Rightarrow> None
      | x # xs \<Rightarrow> if is_quote x then None else
         (case dropWhile (\<lambda>c. \<not> is_quote c) xs of
            [] \<Rightarrow> None
          | q # post \<Rightarrow> Some (x # takeWhile (\<lambda>c. \<not> is_quote c) xs, [[q]], post)))"
proof -
  have star: "mg [Star NotQuote] [[One Quote]] b' r' =
      (case mg [] [[One Quote]] (bol_after b' (takeWhile (cls_ok NotQuote) r')) (dropWhile (cls_ok NotQuote) r') of
              None \<Rightarrow> None
            | Some (c, cs, r'') \<Rightarrow> Some (takeWhile (cls_ok NotQuote) r' @ c, cs, r''))" for b' r'
    by (rule star_skip) simp
  have cls: "cls_ok NotQuote = (\<lambda>c. \<not> is_quote c)" by (auto simp: fun_eq_iff)
  show ?thesis
    by (cases r) (auto simp: star cls simp del: mg.simps(6) split: list.splits option.splits dest: dropWhile_Cons_D)
qed

lemma mg_tail:
  "mg [] tail_gs b r =
     (case r of [] \<Rightarrow> None
      | q1 # r1 \<Rightarrow> if \<not> is_quote q1 then None else
        (case r1 of [] \<Rightarrow> None
         | x # xs \<Rightarrow> if is_quote x then None else
           (case dropWhile (\<lambda>c. \<not> is_quote c) xs of
              [] \<Rightarrow> None
            | q2 # post \<Rightarrow> Some ([], [[q1], x # takeWhile (\<lambda>c. \<not> is_quote c) xs, [q2]], post))))"
  by (auto simp: tail_gs_def mg_value simp del: mg.simps(6,7) split: list.splits option.splits dest: dropWhile_Cons_D)

text \<open>
  What a match consumes is the concatenation of its captures, and the later groups
  match right after the text captured by the current one.
\<close>

lemma mg_concat:
  "mg as gs bol r = Some (c, cs, r') \<Longrightarrow> r = c @ concat cs @ r' \<and> length cs = length gs"
proof (induction as gs bol r arbitrary: c cs r' rule: mg.induct)
  case (1 bol r)
  then show ?case by simp
next
  case (2 g gs bol r)
  then show ?case by (auto split: option.splits)
next
  case (3 as gs bol r)
  then show ?case by (auto split: if_splits)
next
  case (4 l as gs bol r)
  then show ?case by (auto split: if_splits option.splits simp: prefix_def)
next
  case (5 k as gs bol r)
  then show ?case by (cases r) (auto split: if_splits option.splits)
next
  case (6 k as gs bol r)
  then show ?case by (cases r) (auto split: if_splits option.splits)
next
  case (7 k as gs bol r)
  then show ?case by (cases r) (auto split: if_splits option.splits)
qed

lemma mg_rest:
  "mg as gs bol r = Some (c, cs, r') \<Longrightarrow>
   \<exists>b'. mg [] gs b' (drop (length c) r) = Some ([], cs, r')"
proof (induction as gs bol r arbitrary: c cs r' rule: mg.induct)
  case (1 bol r)
  then show ?case by simp
next
  case (2 g gs bol r)
  then have "c = []" by (auto split: option.splits)
  with 2 show ?case by (auto simp del: mg.simps)
next
  case (3 as gs bol r)
  then show ?case by (auto split: if_splits)
next
  case (4 l as gs bol r)
  then show ?case by (auto split: if_splits option.splits simp: prefix_def)
next
  case (5 k as gs bol r)
  then show ?case by (cases r) (auto split: if_splits option.splits)
next
  case (6 k as gs bol r)
  then show ?case by (cases r) (auto split: if_splits option.splits)
next
  case (7 k as gs bol r)
  then show ?case by (cases r) (auto split: if_splits option.splits)
qed

text \<open>
  \<open>search\<close> returns the leftmost position where the pattern matches.
\<close>

lemma search_from_Cons:
  "search_from re b (x # xs) =
     (case match_here re b (x # xs) of
        Some (gs, post) \<Rightarrow> Some ([], gs, post)
      | None \<Rightarrow>
          (case search_from re (is_newline x) xs of
             None \<Rightarrow> None
           | Some (pre, gs, post) \<Rightarrow> Some (x # pre, gs, post)))"
  unfolding search_from.simps [of re b "x # xs"]
  by (simp del: search_from.simps split: option.splits)

lemma search_from_Nil:
  "search_from re b [] =
     (case match_here re b [] of Some (gs, post) \<Rightarrow> Some ([], gs, post) | None \<Rightarrow> None)"
  unfolding search_from.simps [of re b "[]"]
  by (simp del: search_from.simps split: option.splits)

lemma search_from_D:
  "search_from re b r = Some (pre, gs, post) \<Longrightarrow>
   (\<exists>r0. r = pre @ r0 \<and> match_here re (bol_after b pre) r0 = Some (gs, post)) \<and>
   (\<forall>i<length pre. match_here re (bol_after b (take i pre)) (drop i r) = None)"
proof (induction r arbitrary: b pre)
  case Nil
  then show ?case
    by (auto simp: search_from_Nil simp del: search_from.simps split: option.splits)
next
  case (Cons x xs)
  show ?case
  proof (cases "match_here re b (x # xs)")
    case (Some m)
    with Cons.prems show ?thesis
      by (auto simp: search_from_Cons simp del: search_from.simps split: option.splits)
  next
    case None
    with Cons.prems obtain pre' where
      sub: "search_from re (is_newline x) xs = Some (pre', gs, post)" and pre: "pre = x # pre'"
      by (auto simp: search_from_Cons simp del: search_from.simps split: option.splits)
    from Cons.IH [OF sub] obtain r0 where
      r0: "xs = pre' @ r0" "match_here re (bol_after (is_newline x) pre') r0 = Some (gs, post)"
      and early: "\<forall>i<length pre'. match_here re (bol_after (is_newline x) (take i pre')) (drop i xs) = None"
      by blast
    have "\<forall>i<length pre. match_here re (bol_after b (take i pre)) (drop i (x # xs)) = None"
    proof (intro allI impI)
      fix i assume i: "i < length pre"
      show "match_here re (bol_after b (take i pre)) (drop i (x # xs)) = None"
      proof (cases i)
        case 0
        then show ?thesis using None by simp
      next
        case (Suc j)
        then show ?thesis using early i pre by (simp add: bol_after_Cons)
      qed
    qed
    then show ?thesis using r0 pre by (simp add: bol_after_Cons)
  qed
qed

text \<open>
  The shape of every match of the two patterns.
\<close>

lemma match_here_tail:
  assumes "match_here (g # tail_gs) b r = Some (gs, post)"
  shows "\<exists>g1 qa v qb. gs = [g1, [qa], v, [qb]] \<and> is_quote qa \<and> is_quote qb \<and> v \<noteq> [] \<and>
           (\<forall>c\<in>set v. \<not> is_quote c) \<and> r = g1 @ [qa] @ v @ [qb] @ post"
proof -
  from assms obtain c cs where m: "mg g tail_gs b r = Some (c, cs, post)" and gs: "gs = c # cs"
    by (auto simp: match_here_def split: option.splits)
  from mg_rest [OF m] obtain b' where t: "mg [] tail_gs b' (drop (length c) r) = Some ([], cs, post)"
    by blast
  from mg_concat [OF m] have r: "r = c @ concat cs @ post" by simp
  from t obtain qa x xs qb where
    "cs = [[qa], x # takeWhile (\<lambda>c. \<not> is_quote c) xs, [qb]]" "is_quote qa" "\<not> is_quote x"
    "dropWhile (\<lambda>c. \<not> is_quote c) xs = qb # post"
    unfolding mg_tail by (auto split: list.splits if_splits)
  then show ?thesis using gs r
    by (auto dest: dropWhile_Cons_D set_takeWhileD)
qed

lemma assign_re_tail: "assign_re = [Bol, Star Space, Lit (s ''version''), Star Space, Lit (s ''=''), Star Space] # tail_gs"
  by (simp add: assign_re_def tail_gs_def)

lemma dict_re_tail: "dict_re = [One Quote, Lit (s ''version''), One Quote, Star Space, Lit (s '':''), Star Space] # tail_gs"
  by (simp add: dict_re_def tail_gs_def)

lemma search_structure:
  "search re txt = Some (pre, gs, post) \<Longrightarrow> re = assign_re \<or> re = dict_re \<Longrightarrow>
   \<exists>g1 qa v qb. gs = [g1, [qa], v, [qb]] \<and> is_quote qa \<and> is_quote qb \<and> v \<noteq> [] \<and>
     (\<forall>c\<in>set v. \<not> is_quote c) \<and> txt = pre @ g1 @ [qa] @ v @ [qb] @ post"
  unfolding search_def
  by (auto simp: assign_re_tail dict_re_tail simp del: search_from.simps
           dest!: search_from_D match_here_tail)

lemma universal_newlines_id: "13 \<notin> set raw \<Longrightarrow> universal_newlines False raw = raw"
  by (induction raw) auto

lemma rewrite_with_True:
  "rewrite_with re (g1 # [qa] # cur # [qb] # []) txt v w = (Inr True, w') \<Longrightarrow>
   search re txt = Some (pre, [g1, [qa], cur, [qb]], post) \<Longrightarrow>
   cur \<noteq> v \<and> util_file w' = Some (pre @ g1 @ [qa] @ v @ [qb] @ post) \<and>
   trace w' = trace w @ [WriteFile (pre @ g1 @ [qa] @ v @ [qb] @ post)]"
  by (auto simp: rewrite_with_def sub1_def repl_def group_def io_defs Let_def split: if_splits)

text \<open>
  The literals of the patterns as code points, and the behaviour of \<open>takeWhile\<close> and
  \<open>dropWhile\<close> on a run that is followed by a character outside the class.
\<close>

lemma version_chars: "s ''version'' = [118, 101, 114, 115, 105, 111, 110]"
  by (simp add: s_def)

lemma equals_char: "s ''='' = [61]"
  by (simp add: s_def)

lemma colon_char: "s '':'' = [58]"
  by (simp add: s_def)

lemma cls_space: "cls_ok Space = is_space"
  by (auto simp: fun_eq_iff)

lemma not_space_lits: "\<not> is_space 61" "\<not> is_space 58" "\<not> is_space 118"
  by (simp_all add: is_space_def)

lemma dropWhile_all: "list_all P xs \<Longrightarrow> \<not> P y \<Longrightarrow> dropWhile P (xs @ y # ys) = y # ys"
  by (induction xs) auto

lemma takeWhile_all: "list_all P xs \<Longrightarrow> \<not> P y \<Longrightarrow> takeWhile P (xs @ y # ys) = xs"
  by (induction xs) auto

lemma list_all_takeWhile: "list_all P (takeWhile P xs)"
  by (induction xs) auto

text \<open>
  Normal forms of the matcher on the pieces of the two patterns: white space and a
  separator before the quoted value, then the whole first group of each pattern.
\<close>

lemma mg_tail_no_bol: "mg [] tail_gs b r = mg [] tail_gs b' r"
  by (simp only: mg_tail)

lemma rej_tail: "is_space x \<Longrightarrow> mg [] tail_gs b (x # xs) = None"
  by (simp add: mg_tail space_not_quote)

lemma mg_ws_tail:
  "mg [Star Space] tail_gs b r =
     (case mg [] tail_gs True (dropWhile is_space r) of
        None \<Rightarrow> None
      | Some (c, cs, r') \<Rightarrow> Some (takeWhile is_space r, cs, r'))"
proof -
  have "mg [Star Space] tail_gs b r =
     (case mg [] tail_gs (bol_after b (takeWhile (cls_ok Space) r)) (dropWhile (cls_ok Space) r) of
        None \<Rightarrow> None
      | Some (c, cs, r') \<Rightarrow> Some (takeWhile (cls_ok Space) r @ c, cs, r'))"
    by (rule star_skip) (simp add: rej_tail)
  also have "\<dots> = (case mg [] tail_gs True (dropWhile is_space r) of
        None \<Rightarrow> None
      | Some (c, cs, r') \<Rightarrow> Some (takeWhile is_space r, cs, r'))"
    unfolding cls_space mg_tail_no_bol [of "bol_after b (takeWhile is_space r)" _ True]
    by (auto simp: mg_tail split: option.splits list.splits if_splits)
  finally show ?thesis .
qed

lemma mg_lit_ws_tail:
  "mg [Lit [c], Star Space] tail_gs b r =
     (case r of [] \<Rightarrow> None | e # r4 \<Rightarrow> if e \<noteq> c then None else
        (case mg [] tail_gs True (dropWhile is_space r4) of
            None \<Rightarrow> None
          | Some (c', cs, r'') \<Rightarrow> Some (c # takeWhile is_space r4, cs, r'')))"
proof (cases r)
  case Nil
  then show ?thesis by (simp del: mg.simps(6))
next
  case (Cons e r4)
  show ?thesis
    unfolding Cons mg.simps(4) mg_ws_tail
    by (simp add: bol_after_def split: option.splits)
qed

lemma mg_sep_tail:
  assumes "\<not> is_space c"
  shows "mg [Star Space, Lit [c], Star Space] tail_gs b r =
     (case dropWhile is_space r of
        [] \<Rightarrow> None
      | e # r4 \<Rightarrow> if e \<noteq> c then None else
         (case mg [] tail_gs True (dropWhile is_space r4) of
            None \<Rightarrow> None
          | Some (c', cs, r') \<Rightarrow>
              Some (takeWhile is_space r @ c # takeWhile is_space r4, cs, r')))"
proof -
  have rej: "\<And>b x xs. cls_ok Space x \<Longrightarrow> mg [Lit [c], Star Space] tail_gs b (x # xs) = None"
    unfolding mg_lit_ws_tail using assms by (auto simp del: mg.simps)
  have eq: "mg (Star Space # [Lit [c], Star Space]) tail_gs b r =
     (case mg [Lit [c], Star Space] tail_gs (bol_after b (takeWhile (cls_ok Space) r)) (dropWhile (cls_ok Space) r) of
        None \<Rightarrow> None
      | Some (c', cs, r') \<Rightarrow> Some (takeWhile (cls_ok Space) r @ c', cs, r'))"
    by (rule star_skip) (rule rej)
  show ?thesis
    unfolding eq cls_space mg_lit_ws_tail
    by (auto simp del: mg.simps split: list.splits option.splits dest: dropWhile_Cons_D)
qed

lemma quote_not_space: "is_quote x \<Longrightarrow> \<not> is_space x"
  by (auto simp: is_space_def is_quote_def)

lemma tail_S2:
  "is_quote qa \<Longrightarrow> is_quote qb \<Longrightarrow> m \<noteq> [] \<Longrightarrow> list_all (\<lambda>c. \<not> is_quote c) m \<Longrightarrow>
   mg [] tail_gs b (qa # m @ qb # z) = Some ([], [[qa], m, [qb]], z)"
  by (cases m) (simp_all add: mg_tail dropWhile_all takeWhile_all)

lemma sep_S1:
  "\<not> is_space c \<Longrightarrow> mg [Star Space, Lit [c], Star Space] tail_gs b r = Some (g, cs, r') \<Longrightarrow>
   \<exists>w2 w3. g = w2 @ c # w3 \<and> list_all is_space w2 \<and> list_all is_space w3"
proof -
  assume c: "\<not> is_space c" and m: "mg [Star Space, Lit [c], Star Space] tail_gs b r = Some (g, cs, r')"
  from m obtain r4 where "g = takeWhile is_space r @ c # takeWhile is_space r4"
    unfolding mg_sep_tail [OF c]
    by (auto simp del: mg.simps split: list.splits if_splits option.splits)
  then show ?thesis
    by (intro exI [of _ "takeWhile is_space r"] exI [of _ "takeWhile is_space r4"])
       (simp add: list_all_takeWhile)
qed

lemma sep_S2:
  "\<not> is_space c \<Longrightarrow> list_all is_space w2 \<Longrightarrow> list_all is_space w3 \<Longrightarrow> is_quote qa \<Longrightarrow>
   mg [Star Space, Lit [c], Star Space] tail_gs b (w2 @ c # w3 @ qa # rest) =
     (case mg [] tail_gs True (qa # rest) of
        None \<Rightarrow> None
      | Some (c', cs, r') \<Rightarrow> Some (w2 @ c # w3, cs, r'))"
  by (simp add: mg_sep_tail dropWhile_all takeWhile_all quote_not_space del: mg.simps
           split: option.splits)

lemma sep_bol:
  "\<not> is_space c \<Longrightarrow>
   mg [Star Space, Lit [c], Star Space] tail_gs b r =
   mg [Star Space, Lit [c], Star Space] tail_gs True r"
  by (simp add: mg_sep_tail del: mg.simps)

lemma mg_assign:
  "mg [Bol, Star Space, Lit (s ''version''), Star Space, Lit (s ''=''), Star Space] tail_gs b r =
     (if \<not> b then None
      else if \<not> prefix (s ''version'') (dropWhile is_space r) then None
      else (case mg [Star Space, Lit [61], Star Space] tail_gs True
                   (drop 7 (dropWhile is_space r)) of
              None \<Rightarrow> None
            | Some (c, cs, r') \<Rightarrow> Some (takeWhile is_space r @ s ''version'' @ c, cs, r')))"
proof -
  have lit: "mg (Lit (s ''version'') # [Star Space, Lit [61], Star Space]) tail_gs b' r' =
     (if \<not> prefix (s ''version'') r' then None
      else (case mg [Star Space, Lit [61], Star Space] tail_gs True (drop 7 r') of
              None \<Rightarrow> None
            | Some (c, cs, r'') \<Rightarrow> Some (s ''version'' @ c, cs, r'')))" for b' r'
    unfolding mg.simps(4) sep_bol [OF not_space_lits(1), of "bol_after b' (s ''version'')"]
    by (simp add: version_chars eval_nat_numeral del: mg.simps)
  have rej: "\<And>b x xs. cls_ok Space x \<Longrightarrow>
      mg (Lit (s ''version'') # [Star Space, Lit [61], Star Space]) tail_gs b (x # xs) = None"
    unfolding lit using not_space_lits(3) by (auto simp: version_chars simp del: mg.simps)
  have eq: "mg (Star Space # Lit (s ''version'') # [Star Space, Lit [61], Star Space]) tail_gs b r =
     (case mg (Lit (s ''version'') # [Star Space, Lit [61], Star Space]) tail_gs
             (bol_after b (takeWhile (cls_ok Space) r)) (dropWhile (cls_ok Space) r) of
        None \<Rightarrow> None
      | Some (c', cs, r') \<Rightarrow> Some (takeWhile (cls_ok Space) r @ c', cs, r'))"
    by (rule star_skip) (rule rej)
  show ?thesis
    unfolding equals_char mg.simps(3) eq cls_space lit
    by (auto simp del: mg.simps split: option.splits)
qed

lemma mg_dict:
  "mg [One Quote, Lit (s ''version''), One Quote, Star Space, Lit (s '':''), Star Space] tail_gs b r =
     (case r of
        [] \<Rightarrow> None
      | qx # r1 \<Rightarrow>
          if \<not> is_quote qx then None
          else if \<not> prefix (s ''version'') r1 then None
          else (case drop 7 r1 of
                  [] \<Rightarrow> None
                | qy # r2 \<Rightarrow>
                    if \<not> is_quote qy then None
                    else (case mg [Star Space, Lit [58], Star Space] tail_gs True r2 of
                            None \<Rightarrow> None
                          | Some (c, cs, r') \<Rightarrow> Some (qx # s ''version'' @ qy # c, cs, r'))))"
proof -
  have one: "mg (One Quote # [Star Space, Lit [58], Star Space]) tail_gs b' r' =
     (case r' of
        [] \<Rightarrow> None
      | qy # r2 \<Rightarrow>
          if \<not> is_quote qy then None
          else (case mg [Star Space, Lit [58], Star Space] tail_gs True r2 of
                  None \<Rightarrow> None
                | Some (c, cs, r'') \<Rightarrow> Some (qy # c, cs, r'')))" for b' r'
    unfolding mg.simps(5)
    by (cases r') (simp_all add: sep_bol [OF not_space_lits(2), of "is_newline _"] del: mg.simps)
  have lit: "mg (Lit (s ''version'') # One Quote # [Star Space, Lit [58], Star Space]) tail_gs b' r' =
     (if \<not> prefix (s ''version'') r' then None
      else (case mg (One Quote # [Star Space, Lit [58], Star Space]) tail_gs True (drop 7 r') of
              None \<Rightarrow> None
            | Some (c, cs, r'') \<Rightarrow> Some (s ''version'' @ c, cs, r'')))" for b' r'
    unfolding mg.simps(4) one
    by (simp add: version_chars eval_nat_numeral del: mg.simps)
  show ?thesis
    unfolding colon_char mg.simps(5) [of Quote "Lit (s ''version'') # One Quote # [Star Space, Lit [58], Star Space]"]
      lit one
    by (auto simp del: mg.simps split: list.splits option.splits)
qed

text \<open>
  The matches of the two patterns at one position, characterised by the shape of the
  text: a key (\<open>key_assign\<close> or \<open>key_dict\<close>), a quote, a non-empty value without quote, a
  quote.
\<close>

lemma assign_S1:
  assumes "mg [Bol, Star Space, Lit (s ''version''), Star Space, Lit (s ''=''), Star Space] tail_gs b r =
             Some (g, cs, r')"
  shows "b \<and> key_assign g"
proof -
  from assms have b: b and p: "prefix (s ''version'') (dropWhile is_space r)"
    unfolding mg_assign by (auto split: if_splits)
  from assms b p obtain c where
    c: "mg [Star Space, Lit [61], Star Space] tail_gs True (drop 7 (dropWhile is_space r)) = Some (c, cs, r')"
    and g: "g = takeWhile is_space r @ s ''version'' @ c"
    unfolding mg_assign by (auto simp del: mg.simps split: option.splits)
  from sep_S1 [OF not_space_lits(1) c] obtain w2 w3 where
    "c = w2 @ 61 # w3" "list_all is_space w2" "list_all is_space w3" by blast
  with g have "key_assign g"
    unfolding key_assign_def equals_char
    by (intro exI [of _ "takeWhile is_space r"] exI [of _ w2] exI [of _ w3])
       (simp add: list_all_takeWhile)
  with b show ?thesis by simp
qed

lemma assign_S2:
  assumes "key_assign g" "is_quote qa"
  shows "mg [Bol, Star Space, Lit (s ''version''), Star Space, Lit (s ''=''), Star Space] tail_gs True
            (g @ qa # rest) =
         (case mg [] tail_gs True (qa # rest) of
            None \<Rightarrow> None
          | Some (c', cs, r') \<Rightarrow> Some (g, cs, r'))"
proof -
  from assms obtain w1 w2 w3 where
    g: "g = w1 @ s ''version'' @ w2 @ 61 # w3" and
    w: "list_all is_space w1" "list_all is_space w2" "list_all is_space w3"
    unfolding key_assign_def equals_char by auto
  have d: "dropWhile is_space (g @ qa # rest) = s ''version'' @ w2 @ 61 # w3 @ qa # rest"
    and t: "takeWhile is_space (g @ qa # rest) = w1"
    using w(1) not_space_lits(3)
    by (simp_all add: g version_chars dropWhile_all takeWhile_all)
  have d7: "drop 7 (s ''version'' @ w2 @ 61 # w3 @ qa # rest) = w2 @ 61 # w3 @ qa # rest"
    by (simp add: version_chars)
  show ?thesis
    unfolding mg_assign d t d7 sep_S2 [OF not_space_lits(1) w(2,3) assms(2)]
    by (simp add: g del: mg.simps split: option.splits)
qed

lemma dict_S1:
  assumes "mg [One Quote, Lit (s ''version''), One Quote, Star Space, Lit (s '':''), Star Space] tail_gs b r =
             Some (g, cs, r')"
  shows "key_dict g"
proof -
  from assms obtain qx qy r2 c where
    q: "is_quote qx" "is_quote qy" and
    c: "mg [Star Space, Lit [58], Star Space] tail_gs True r2 = Some (c, cs, r')" and
    g: "g = qx # s ''version'' @ qy # c"
    unfolding mg_dict
    by (auto simp del: mg.simps split: list.splits if_splits option.splits)
  from sep_S1 [OF not_space_lits(2) c] obtain w2 w3 where
    "c = w2 @ 58 # w3" "list_all is_space w2" "list_all is_space w3" by blast
  with g q show ?thesis
    unfolding key_dict_def colon_char
    by (intro exI [of _ qx] exI [of _ qy] exI [of _ w2] exI [of _ w3]) simp
qed

lemma dict_S2:
  assumes "key_dict g" "is_quote qa"
  shows "mg [One Quote, Lit (s ''version''), One Quote, Star Space, Lit (s '':''), Star Space] tail_gs b
            (g @ qa # rest) =
         (case mg [] tail_gs True (qa # rest) of
            None \<Rightarrow> None
          | Some (c', cs, r') \<Rightarrow> Some (g, cs, r'))"
proof -
  from assms obtain qx qy w2 w3 where
    g: "g = qx # s ''version'' @ qy # w2 @ 58 # w3" and q: "is_quote qx" "is_quote qy" and
    w: "list_all is_space w2" "list_all is_space w3"
    unfolding key_dict_def colon_char by auto
  show ?thesis
    unfolding mg_dict g
    using q
    by (simp add: version_chars sep_S2 [OF not_space_lits(2) w assms(2)] del: mg.simps
             split: option.splits)
qed

lemma match_assign_iff:
  "match_here assign_re b r = Some (gs, post) \<longleftrightarrow>
     b \<and> (\<exists>g qa m qb. gs = [g, [qa], m, [qb]] \<and> r = g @ qa # m @ qb # post \<and> key_assign g \<and>
            is_quote qa \<and> is_quote qb \<and> m \<noteq> [] \<and> list_all (\<lambda>c. \<not> is_quote c) m)"
proof
  assume m: "match_here assign_re b r = Some (gs, post)"
  from match_here_tail [OF m [unfolded assign_re_tail]] obtain g qa v qb where
    s: "gs = [g, [qa], v, [qb]]" "is_quote qa" "is_quote qb" "v \<noteq> []"
       "\<forall>c\<in>set v. \<not> is_quote c" "r = g @ [qa] @ v @ [qb] @ post"
    by blast
  from m s(1) have "mg [Bol, Star Space, Lit (s ''version''), Star Space, Lit (s ''=''), Star Space]
      tail_gs b r = Some (g, [[qa], v, [qb]], post)"
    unfolding assign_re_tail match_here_def by (auto simp del: mg.simps split: option.splits)
  from assign_S1 [OF this] s show
    "b \<and> (\<exists>g qa m qb. gs = [g, [qa], m, [qb]] \<and> r = g @ qa # m @ qb # post \<and> key_assign g \<and>
            is_quote qa \<and> is_quote qb \<and> m \<noteq> [] \<and> list_all (\<lambda>c. \<not> is_quote c) m)"
    by (auto simp: list_all_iff)
next
  assume "b \<and> (\<exists>g qa m qb. gs = [g, [qa], m, [qb]] \<and> r = g @ qa # m @ qb # post \<and> key_assign g \<and>
            is_quote qa \<and> is_quote qb \<and> m \<noteq> [] \<and> list_all (\<lambda>c. \<not> is_quote c) m)"
  then obtain g qa m qb where b: b and
    s: "gs = [g, [qa], m, [qb]]" "r = g @ qa # m @ qb # post" "key_assign g"
       "is_quote qa" "is_quote qb" "m \<noteq> []" "list_all (\<lambda>c. \<not> is_quote c) m"
    by blast
  show "match_here assign_re b r = Some (gs, post)"
    unfolding assign_re_tail match_here_def
    using b s
    by (simp add: assign_S2 tail_S2 del: mg.simps)
qed

lemma match_dict_iff:
  "match_here dict_re b r = Some (gs, post) \<longleftrightarrow>
     (\<exists>g qa m qb. gs = [g, [qa], m, [qb]] \<and> r = g @ qa # m @ qb # post \<and> key_dict g \<and>
            is_quote qa \<and> is_quote qb \<and> m \<noteq> [] \<and> list_all (\<lambda>c. \<not> is_quote c) m)"
proof
  assume m: "match_here dict_re b r = Some (gs, post)"
  from match_here_tail [OF m [unfolded dict_re_tail]] obtain g qa v qb where
    s: "gs = [g, [qa], v, [qb]]" "is_quote qa" "is_quote qb" "v \<noteq> []"
       "\<forall>c\<in>set v. \<not> is_quote c" "r = g @ [qa] @ v @ [qb] @ post"
    by blast
  from m s(1) have "mg [One Quote, Lit (s ''version''), One Quote, Star Space, Lit (s '':''), Star Space]
      tail_gs b r = Some (g, [[qa], v, [qb]], post)"
    unfolding dict_re_tail match_here_def by (auto simp del: mg.simps split: option.splits)
  from dict_S1 [OF this] s show
    "\<exists>g qa m qb. gs = [g, [qa], m, [qb]] \<and> r = g @ qa # m @ qb # post \<and> key_dict g \<and>
            is_quote qa \<and> is_quote qb \<and> m \<noteq> [] \<and> list_all (\<lambda>c. \<not> is_quote c) m"
    by (auto simp: list_all_iff)
next
  assume "\<exists>g qa m qb. gs = [g, [qa], m, [qb]] \<and> r = g @ qa # m @ qb # post \<and> key_dict g \<and>
            is_quote qa \<and> is_quote qb \<and> m \<noteq> [] \<and> list_all (\<lambda>c. \<not> is_quote c) m"
  then obtain g qa m qb where
    s: "gs = [g, [qa], m, [qb]]" "r = g @ qa # m @ qb # post" "key_dict g"
       "is_quote qa" "is_quote qb" "m \<noteq> []" "list_all (\<lambda>c. \<not> is_quote c) m"
    by blast
  show "match_here dict_re b r = Some (gs, post)"
    unfolding dict_re_tail match_here_def
    using s
    by (simp add: dict_S2 tail_S2 del: mg.simps)
qed

text \<open>
  A match holds a fixed number of quote characters and ends with the last of them, so a
  match that starts in a text with enough quote characters ends inside it and does not
  depend on what follows.
\<close>

lemma first_quote_unique:
  assumes "a @ q # r = a' @ q' # r'" "list_all (\<lambda>c. \<not> is_quote c) a"
    "list_all (\<lambda>c. \<not> is_quote c) a'" "is_quote q" "is_quote q'"
  shows "a = a' \<and> q = q' \<and> r = r'"
proof -
  have "a = takeWhile (\<lambda>c. \<not> is_quote c) (a @ q # r)"
    using assms(2,4) by (simp add: takeWhile_all)
  also have "\<dots> = takeWhile (\<lambda>c. \<not> is_quote c) (a' @ q' # r')"
    by (simp only: assms(1))
  also have "\<dots> = a'"
    using assms(3,5) by (simp add: takeWhile_all)
  finally have "a = a'" .
  with assms(1) show ?thesis by simp
qed

lemma spaces_no_quote: "list_all is_space w \<Longrightarrow> filter is_quote w = []"
  by (induction w) (auto simp: space_not_quote)

lemma no_quote_filter: "list_all (\<lambda>c. \<not> is_quote c) m \<longleftrightarrow> filter is_quote m = []"
  by (induction m) auto

lemma key_assign_no_quote: "key_assign g \<Longrightarrow> filter is_quote g = []"
  by (auto simp: key_assign_def spaces_no_quote version_chars equals_char is_quote_def)

lemma key_dict_quotes: "key_dict g \<Longrightarrow> length (filter is_quote g) = 2"
  by (auto simp: key_dict_def spaces_no_quote version_chars colon_char is_quote_def)

lemma prefix_by_count:
  assumes eq: "X @ Y = M @ q # P" and q: "is_quote q"
    and cnt: "length (filter is_quote M) < length (filter is_quote X)"
  shows "\<exists>rest. X = M @ q # rest \<and> P = rest @ Y"
proof -
  from eq have "X @ Y = (M @ [q]) @ P" by simp
  then obtain us where
    "X = (M @ [q]) @ us \<and> us @ Y = P \<or> X @ us = M @ [q] \<and> Y = us @ P"
    unfolding append_eq_append_conv2 by blast
  then show ?thesis
  proof
    assume "X = (M @ [q]) @ us \<and> us @ Y = P"
    then show ?thesis by auto
  next
    assume a: "X @ us = M @ [q] \<and> Y = us @ P"
    show ?thesis
    proof (cases us rule: rev_cases)
      case Nil
      with a show ?thesis by auto
    next
      case (snoc us' z)
      with a have "X @ us' = M" by simp
      then have "length (filter is_quote X) \<le> length (filter is_quote M)" by auto
      with cnt show ?thesis by simp
    qed
  qed
qed

lemma local_assign:
  assumes m: "match_here assign_re b (X @ Y) = Some (gs, post')"
    and cnt: "2 \<le> length (filter is_quote X)"
  shows "\<exists>rest. match_here assign_re b (X @ Y') = Some (gs, rest @ Y')"
proof -
  from m obtain g qa v qb where b: b and
    s: "gs = [g, [qa], v, [qb]]" "X @ Y = g @ qa # v @ qb # post'" "key_assign g"
       "is_quote qa" "is_quote qb" "v \<noteq> []" "list_all (\<lambda>c. \<not> is_quote c) v"
    unfolding match_assign_iff by blast
  have c1: "length (filter is_quote (g @ qa # v)) = 1"
    using s(3,4,7) by (simp add: key_assign_no_quote no_quote_filter)
  from s(2) have "X @ Y = (g @ qa # v) @ qb # post'" by simp
  from prefix_by_count [OF this s(5)] c1 cnt obtain rest where
    "X = (g @ qa # v) @ qb # rest" by auto
  then have "X @ Y' = g @ qa # v @ qb # (rest @ Y')" by simp
  with b s have "match_here assign_re b (X @ Y') = Some (gs, rest @ Y')"
    unfolding match_assign_iff by blast
  then show ?thesis ..
qed

lemma local_dict:
  assumes m: "match_here dict_re b (X @ Y) = Some (gs, post')"
    and cnt: "4 \<le> length (filter is_quote X)"
  shows "\<exists>rest. match_here dict_re b (X @ Y') = Some (gs, rest @ Y')"
proof -
  from m obtain g qa v qb where
    s: "gs = [g, [qa], v, [qb]]" "X @ Y = g @ qa # v @ qb # post'" "key_dict g"
       "is_quote qa" "is_quote qb" "v \<noteq> []" "list_all (\<lambda>c. \<not> is_quote c) v"
    unfolding match_dict_iff by blast
  have c1: "length (filter is_quote (g @ qa # v)) = 3"
    using s(3,4,7) by (simp add: key_dict_quotes no_quote_filter)
  from s(2) have "X @ Y = (g @ qa # v) @ qb # post'" by simp
  from prefix_by_count [OF this s(5)] c1 cnt obtain rest where
    "X = (g @ qa # v) @ qb # rest" by auto
  then have "X @ Y' = g @ qa # v @ qb # (rest @ Y')" by simp
  with s have "match_here dict_re b (X @ Y') = Some (gs, rest @ Y')"
    unfolding match_dict_iff by blast
  then show ?thesis ..
qed

lemma key_assign_transfer:
  assumes m: "match_here assign_re b (s0 @ qa # v @ qb # post) \<noteq> None"
    and q: "is_quote qa" "is_quote qb"
    and v: "list_all (\<lambda>c. \<not> is_quote c) v"
    and c: "cur \<noteq> []" "list_all (\<lambda>c. \<not> is_quote c) cur"
  shows "match_here assign_re b (s0 @ qa # cur @ qb # post) \<noteq> None"
proof (cases "filter is_quote s0 = []")
  case False
  then have "2 \<le> length (filter is_quote (s0 @ [qa]))"
    using q(1) by (cases "filter is_quote s0") auto
  moreover from m obtain gs post' where
    "match_here assign_re b ((s0 @ [qa]) @ v @ qb # post) = Some (gs, post')" by auto
  ultimately obtain rest where
    "match_here assign_re b ((s0 @ [qa]) @ cur @ qb # post) = Some (gs, rest @ cur @ qb # post)"
    using local_assign by blast
  then show ?thesis by simp
next
  case True
  from m obtain gs post' where "match_here assign_re b (s0 @ qa # v @ qb # post) = Some (gs, post')"
    by auto
  then obtain g qa' m' qb' where b: b and
    s: "s0 @ qa # v @ qb # post = g @ qa' # m' @ qb' # post'" "key_assign g" "is_quote qa'"
    unfolding match_assign_iff by blast
  from first_quote_unique [OF s(1)] True s(2,3) q(1) have "g = s0"
    by (simp add: no_quote_filter key_assign_no_quote)
  with b s(2) q c have
    "match_here assign_re b (s0 @ qa # cur @ qb # post) = Some ([s0, [qa], cur, [qb]], post)"
    unfolding match_assign_iff by blast
  then show ?thesis by simp
qed

lemma key_dict_transfer:
  assumes m: "match_here dict_re b (d @ g1 @ qa # v @ qb # post) \<noteq> None"
    and d: "d \<noteq> []" and g1: "key_dict g1" and q: "is_quote qa"
  shows "match_here dict_re b (d @ g1 @ qa # cur @ qb # post) \<noteq> None"
proof -
  from m obtain gs post' where
    m': "match_here dict_re b (d @ g1 @ qa # v @ qb # post) = Some (gs, post')" by auto
  then obtain g where "d @ g1 @ qa # v @ qb # post = g @ concat (tl gs) @ post'" "key_dict g"
    unfolding match_dict_iff by auto
  then have "is_quote (hd d)"
    using d by (cases d) (auto simp: key_dict_def)
  then have "1 \<le> length (filter is_quote d)"
    using d by (cases d) auto
  then have "4 \<le> length (filter is_quote (d @ g1 @ [qa]))"
    using key_dict_quotes [OF g1] q by simp
  moreover from m' have
    "match_here dict_re b ((d @ g1 @ [qa]) @ v @ qb # post) = Some (gs, post')" by simp
  ultimately obtain rest where
    "match_here dict_re b ((d @ g1 @ [qa]) @ cur @ qb # post) = Some (gs, rest @ cur @ qb # post)"
    using local_dict by blast
  then show ?thesis by simp
qed

text \<open>
  \<open>search\<close> over a text cut in two: the positions of the first part, then the search in
  the second part.
\<close>

lemma search_from_I:
  "(\<forall>i<length X. match_here re (bol_after b (take i X)) (drop i X @ Y) = None) \<Longrightarrow>
   match_here re (bol_after b X) Y = Some (gs, post) \<Longrightarrow>
   search_from re b (X @ Y) = Some (X, gs, post)"
proof (induction X arbitrary: b)
  case Nil
  then show ?case
    by (cases Y) (simp_all add: search_from_Nil search_from_Cons del: search_from.simps)
next
  case (Cons x xs)
  from Cons.prems(1) have h: "match_here re b (x # xs @ Y) = None" by force
  have "\<forall>i<length xs. match_here re (bol_after (is_newline x) (take i xs)) (drop i xs @ Y) = None"
  proof (intro allI impI)
    fix i assume "i < length xs"
    with Cons.prems(1) have
      "match_here re (bol_after b (take (Suc i) (x # xs))) (drop (Suc i) (x # xs) @ Y) = None"
      by (metis Suc_less_eq length_Cons)
    then show "match_here re (bol_after (is_newline x) (take i xs)) (drop i xs @ Y) = None"
      by (simp add: bol_after_Cons)
  qed
  from Cons.IH [OF this] Cons.prems(2)
  have "search_from re (is_newline x) (xs @ Y) = Some (xs, gs, post)"
    by (simp add: bol_after_Cons)
  with h show ?case
    by (simp add: search_from_Cons del: search_from.simps)
qed

lemma search_from_append_None:
  "search_from re b (X @ Y) = None \<longleftrightarrow>
     (\<forall>i<length X. match_here re (bol_after b (take i X)) (drop i X @ Y) = None) \<and>
     search_from re (bol_after b X) Y = None"
proof (induction X arbitrary: b)
  case Nil
  show ?case by simp
next
  case (Cons x xs)
  have "(\<forall>i<length (x # xs). match_here re (bol_after b (take i (x # xs))) (drop i (x # xs) @ Y) = None)
      \<longleftrightarrow> match_here re b (x # xs @ Y) = None \<and>
          (\<forall>i<length xs. match_here re (bol_after (is_newline x) (take i xs)) (drop i xs @ Y) = None)"
    (is "?L \<longleftrightarrow> ?R")
  proof
    assume l: ?L
    then have "match_here re (bol_after b (take 0 (x # xs))) (drop 0 (x # xs) @ Y) = None"
      by (metis length_greater_0_conv list.distinct(1))
    moreover have "\<forall>i<length xs. match_here re (bol_after (is_newline x) (take i xs)) (drop i xs @ Y) = None"
    proof (intro allI impI)
      fix i assume "i < length xs"
      with l have
        "match_here re (bol_after b (take (Suc i) (x # xs))) (drop (Suc i) (x # xs) @ Y) = None"
        by (metis Suc_less_eq length_Cons)
      then show "match_here re (bol_after (is_newline x) (take i xs)) (drop i xs @ Y) = None"
        by (simp add: bol_after_Cons)
    qed
    ultimately show ?R by simp
  next
    assume r: ?R
    show ?L
    proof (intro allI impI)
      fix i assume i: "i < length (x # xs)"
      show "match_here re (bol_after b (take i (x # xs))) (drop i (x # xs) @ Y) = None"
      proof (cases i)
        case 0
        with r show ?thesis by simp
      next
        case (Suc j)
        with r i show ?thesis by (simp add: bol_after_Cons)
      qed
    qed
  qed
  then show ?case
    using Cons.IH [of "is_newline x"]
    by (auto simp add: search_from_Cons bol_after_Cons simp del: search_from.simps
             split: option.splits)
qed

lemma match_assign_no_bol: "match_here assign_re False r = None"
  by (cases "match_here assign_re False r") (auto simp: match_assign_iff)

lemma search_assign_mono:
  "search_from assign_re b r = None \<Longrightarrow> search_from assign_re False r = None"
  by (cases r)
     (auto simp: search_from_Nil search_from_Cons match_assign_no_bol
           simp del: search_from.simps split: option.splits)

lemma search_assign_skip:
  "list_all (\<lambda>c. c \<noteq> 10) xs \<Longrightarrow> search_from assign_re False R = None \<Longrightarrow>
   search_from assign_re False (xs @ R) = None"
  by (induction xs)
     (auto simp: search_from_Cons match_assign_no_bol is_newline_def
           simp del: search_from.simps split: option.splits)

lemma universal_newlines_no_cr: "13 \<notin> set (universal_newlines cr raw)"
  by (induction raw arbitrary: cr) auto

text \<open>
  Replacing the value of the first match by another value without quote leaves the
  match where it is, and creates no match of the assignment pattern when the new value
  has no line feed.
\<close>

lemma assign_stable:
  assumes m: "search assign_re (pre @ g1 @ qa # cur @ qb # post) = Some (pre, [g1, [qa], cur, [qb]], post)"
    and v: "v \<noteq> []" "list_all (\<lambda>c. \<not> is_quote c) v"
  shows "search assign_re (pre @ g1 @ qa # v @ qb # post) = Some (pre, [g1, [qa], v, [qb]], post)"
proof -
  from search_from_D [OF m [unfolded search_def]] obtain r0 where
    r0: "pre @ g1 @ qa # cur @ qb # post = pre @ r0" and
    m0: "match_here assign_re (bol_after True pre) r0 = Some ([g1, [qa], cur, [qb]], post)" and
    early: "\<forall>i<length pre. match_here assign_re (bol_after True (take i pre))
              (drop i (pre @ g1 @ qa # cur @ qb # post)) = None"
    by blast
  from m0 have b: "bol_after True pre" and k: "key_assign g1" and q: "is_quote qa" "is_quote qb"
    and c: "cur \<noteq> []" "list_all (\<lambda>c. \<not> is_quote c) cur"
    unfolding match_assign_iff by auto
  from b k q v have here:
    "match_here assign_re (bol_after True pre) (g1 @ qa # v @ qb # post) = Some ([g1, [qa], v, [qb]], post)"
    unfolding match_assign_iff by blast
  have "\<forall>i<length pre. match_here assign_re (bol_after True (take i pre))
          (drop i pre @ g1 @ qa # v @ qb # post) = None"
  proof (intro allI impI)
    fix i assume i: "i < length pre"
    with early have e: "match_here assign_re (bol_after True (take i pre))
        ((drop i pre @ g1) @ qa # cur @ qb # post) = None" by simp
    show "match_here assign_re (bol_after True (take i pre)) (drop i pre @ g1 @ qa # v @ qb # post) = None"
    proof (rule ccontr)
      assume "match_here assign_re (bol_after True (take i pre))
                (drop i pre @ g1 @ qa # v @ qb # post) \<noteq> None"
      then have "match_here assign_re (bol_after True (take i pre))
                ((drop i pre @ g1) @ qa # v @ qb # post) \<noteq> None" by simp
      from key_assign_transfer [OF this q v(2) c] e show False by simp
    qed
  qed
  from search_from_I [OF this here] show ?thesis by (simp add: search_def)
qed

lemma dict_stable:
  assumes m: "search dict_re (pre @ g1 @ qa # cur @ qb # post) = Some (pre, [g1, [qa], cur, [qb]], post)"
    and v: "v \<noteq> []" "list_all (\<lambda>c. \<not> is_quote c) v"
  shows "search dict_re (pre @ g1 @ qa # v @ qb # post) = Some (pre, [g1, [qa], v, [qb]], post)"
proof -
  from search_from_D [OF m [unfolded search_def]] obtain r0 where
    r0: "pre @ g1 @ qa # cur @ qb # post = pre @ r0" and
    m0: "match_here dict_re (bol_after True pre) r0 = Some ([g1, [qa], cur, [qb]], post)" and
    early: "\<forall>i<length pre. match_here dict_re (bol_after True (take i pre))
              (drop i (pre @ g1 @ qa # cur @ qb # post)) = None"
    by blast
  from m0 have k: "key_dict g1" and q: "is_quote qa" "is_quote qb"
    unfolding match_dict_iff by auto
  from k q v have here:
    "match_here dict_re (bol_after True pre) (g1 @ qa # v @ qb # post) = Some ([g1, [qa], v, [qb]], post)"
    unfolding match_dict_iff by blast
  have "\<forall>i<length pre. match_here dict_re (bol_after True (take i pre))
          (drop i pre @ g1 @ qa # v @ qb # post) = None"
  proof (intro allI impI)
    fix i assume i: "i < length pre"
    with early have e: "match_here dict_re (bol_after True (take i pre))
        (drop i pre @ g1 @ qa # cur @ qb # post) = None" by simp
    from i have d: "drop i pre \<noteq> []" by simp
    show "match_here dict_re (bol_after True (take i pre)) (drop i pre @ g1 @ qa # v @ qb # post) = None"
    proof (rule ccontr)
      assume "match_here dict_re (bol_after True (take i pre))
                (drop i pre @ g1 @ qa # v @ qb # post) \<noteq> None"
      from key_dict_transfer [OF this d k q(1), of cur] e show False by simp
    qed
  qed
  from search_from_I [OF this here] show ?thesis by (simp add: search_def)
qed

lemma assign_none_stable:
  assumes n: "search assign_re (p0 @ qa # cur @ qb # post) = None"
    and q: "is_quote qa" "is_quote qb"
    and c: "cur \<noteq> []" "list_all (\<lambda>c. \<not> is_quote c) cur"
    and v: "list_all (\<lambda>c. \<not> is_quote c) v" "list_all (\<lambda>c. c \<noteq> 10) v"
  shows "search assign_re (p0 @ qa # v @ qb # post) = None"
proof -
  have nl: "\<not> is_newline qa" using q(1) by (auto simp: is_newline_def is_quote_def)
  have b: "bol_after True (p0 @ [qa]) = False"
    using nl by (simp add: bol_after_def)
  from n have n': "search_from assign_re True ((p0 @ [qa]) @ cur @ qb # post) = None"
    by (simp add: search_def)
  note split1 = search_from_append_None [of assign_re True "p0 @ [qa]" "cur @ qb # post"]
  have e1: "\<forall>i<length (p0 @ [qa]). match_here assign_re (bol_after True (take i (p0 @ [qa])))
                   (drop i (p0 @ [qa]) @ cur @ qb # post) = None"
    by (rule conjunct1 [OF iffD1 [OF split1 n']])
  have r1: "search_from assign_re False (cur @ qb # post) = None"
    using conjunct2 [OF iffD1 [OF split1 n']] unfolding b .
  note split2 = search_from_append_None [of assign_re False cur "qb # post"]
  have "search_from assign_re (bol_after False cur) (qb # post) = None"
    by (rule conjunct2 [OF iffD1 [OF split2 r1]])
  then have r3: "search_from assign_re False (qb # post) = None"
    by (rule search_assign_mono)
  have r2: "search_from assign_re (bol_after True (p0 @ [qa])) (v @ qb # post) = None"
    unfolding b by (rule search_assign_skip [OF v(2) r3])
  have e2: "\<forall>i<length (p0 @ [qa]). match_here assign_re (bol_after True (take i (p0 @ [qa])))
                   (drop i (p0 @ [qa]) @ v @ qb # post) = None"
  proof (intro allI impI)
    fix i assume i: "i < length (p0 @ [qa])"
    then have d: "drop i (p0 @ [qa]) = drop i p0 @ [qa]" by simp
    from e1 i have "match_here assign_re (bol_after True (take i (p0 @ [qa])))
                   (drop i (p0 @ [qa]) @ cur @ qb # post) = None"
      by blast
    then have e: "match_here assign_re (bol_after True (take i (p0 @ [qa])))
                   (drop i p0 @ qa # cur @ qb # post) = None"
      unfolding d by simp
    have "match_here assign_re (bol_after True (take i (p0 @ [qa])))
                   (drop i p0 @ qa # v @ qb # post) = None"
    proof (rule ccontr)
      assume "match_here assign_re (bol_after True (take i (p0 @ [qa])))
                (drop i p0 @ qa # v @ qb # post) \<noteq> None"
      from key_assign_transfer [OF this q v(1) c] e show False by simp
    qed
    then show "match_here assign_re (bol_after True (take i (p0 @ [qa])))
                   (drop i (p0 @ [qa]) @ v @ qb # post) = None"
      unfolding d by simp
  qed
  have "search_from assign_re True ((p0 @ [qa]) @ v @ qb # post) = None"
    by (rule iffD2 [OF search_from_append_None [of assign_re True "p0 @ [qa]" "v @ qb # post"]])
       (rule conjI [OF e2 r2])
  then show ?thesis by (simp add: search_def)
qed

lemma update_noop:
  "util_file w = Some raw \<Longrightarrow>
   search assign_re (universal_newlines False raw) = Some (pre, gs, post) \<or>
   search assign_re (universal_newlines False raw) = None \<and>
   search dict_re (universal_newlines False raw) = Some (pre, gs, post) \<Longrightarrow>
   group gs 3 = v \<Longrightarrow>
   update_util_version v w =
     (Inr False, w\<lparr>trace := trace w @ [ReadFile], out := out w @ [s ''util.version already '' @ v]\<rparr>)"
  by (auto simp: update_util_version_def rewrite_with_def io_defs)

lemma rewrite_with_result:
  "rewrite_with re gs tx v w0 = (Inr changed, w1) \<Longrightarrow>
   search re tx = Some (pre, gs, post) \<Longrightarrow>
   (group gs 3 = v \<and> util_file w1 = util_file w0) \<or>
   (group gs 3 \<noteq> v \<and> util_file w1 = Some (pre @ group gs 1 @ group gs 2 @ v @ group gs 4 @ post))"
  by (auto simp: rewrite_with_def sub1_def repl_def io_defs Let_def split: if_splits)

lemma no_cr_parts:
  "13 \<notin> set (pre @ g1 @ [qa] @ cur @ [qb] @ post) \<Longrightarrow> list_all (\<lambda>c. c \<noteq> 13) v \<Longrightarrow>
   13 \<notin> set (pre @ g1 @ [qa] @ v @ [qb] @ post)"
  by (auto simp: list_all_iff)


section \<open>The precondition gate\<close>

text \<open>
  C4, as the code has it. The script does not see the working tree, only what the status
  query prints. Without \<open>--allow-dirty\<close>, when the standard output of the status query
  holds a character that is not white space, \<open>main\<close> ends with exit status 1; the only
  event is the status query (the file is neither read nor written and no other git
  command is issued), and the only output is the diagnostic.
\<close>

theorem dirty_tree_aborts_first:
  "\<not> allow_dirty a \<Longrightarrow> strip (status_out w) \<noteq> [] \<Longrightarrow>
   main a w =
     (1, w\<lparr>trace := trace w @ [Git [s ''git'', s ''status'', s ''--porcelain'']],
           err := err w @ [Text (s ''working tree is not clean; commit or use --allow-dirty'')]\<rparr>)"
  by (simp add: main_def main_body_def clean_gate_def io_defs)

theorem dirty_tree_aborts_first_witness:
  "\<not> allow_dirty (demo_args (s ''1.0'')) \<and>
   strip (status_out ((demo_world (s ''version = 1''))\<lparr>status_out := s '' M plugin/util.py''\<rparr>)) \<noteq> [] \<and>
   main (demo_args (s ''1.0''))
        ((demo_world (s ''version = 1''))\<lparr>status_out := s '' M plugin/util.py''\<rparr>) =
     (1, (demo_world (s ''version = 1''))\<lparr>status_out := s '' M plugin/util.py'',
           trace := [Git [s ''git'', s ''status'', s ''--porcelain'']],
           err := [Text (s ''working tree is not clean; commit or use --allow-dirty'')]\<rparr>)"
  using dirty_tree_aborts_first [of "demo_args (s ''1.0'')"
      "(demo_world (s ''version = 1''))\<lparr>status_out := s '' M plugin/util.py''\<rparr>"]
  by (simp add: demo_args_def demo_world_def strip_def char_defs)

text \<open>
  C4 as the specification states it, for every working tree with uncommitted changes,
  fails: in a tree with uncommitted changes where \<open>git status --porcelain\<close> fails with
  exit status 128 and prints nothing on its standard output, the invocation
  \<open>tag_release.py 2\<close> passes the gate and rewrites \<open>plugin/util.py\<close>. When every later git
  command fails as well, the script ends with exit status 1 after the file has been
  read and written and \<open>git add\<close> has been tried; when the later commands succeed, it
  commits, tags, and ends with exit status 0.
\<close>

theorem unreported_dirty_tree_is_rewritten:
  "tree_dirty ((demo_world (s ''version = '' @ [39] @ s ''1'' @ [39, 10]))
                 \<lparr>tree_dirty := True, status_rc := 128, git_rc := git_fails\<rparr>) \<and>
   \<not> allow_dirty (demo_args (s ''2'')) \<and>
   main (demo_args (s ''2''))
        ((demo_world (s ''version = '' @ [39] @ s ''1'' @ [39, 10]))
           \<lparr>tree_dirty := True, status_rc := 128, git_rc := git_fails\<rparr>) =
     (1, (demo_world (s ''version = '' @ [39] @ s ''1'' @ [39, 10]))
           \<lparr>tree_dirty := True, status_rc := 128, git_rc := git_fails,
            util_file := Some (s ''version = '' @ [39] @ s ''2'' @ [39, 10]),
            trace := [Git [s ''git'', s ''status'', s ''--porcelain''],
                      ReadFile,
                      WriteFile (s ''version = '' @ [39] @ s ''2'' @ [39, 10]),
                      Git [s ''git'', s ''add'', s ''plugin/util.py'']],
            out := [s ''updated plugin/util.py version 1 -> 2''],
            err := [TextExc (s ''git command failed:'')
                      (CalledProcessError [s ''git'', s ''add'', s ''plugin/util.py''] 128)]\<rparr>) \<and>
   tree_dirty ((demo_world (s ''version = '' @ [39] @ s ''1'' @ [39, 10]))
                 \<lparr>tree_dirty := True, status_rc := 128\<rparr>) \<and>
   \<not> allow_dirty (demo_args (s ''2'')) \<and>
   main (demo_args (s ''2''))
        ((demo_world (s ''version = '' @ [39] @ s ''1'' @ [39, 10]))
           \<lparr>tree_dirty := True, status_rc := 128\<rparr>) =
     (0, (demo_world (s ''version = '' @ [39] @ s ''1'' @ [39, 10]))
           \<lparr>tree_dirty := True, status_rc := 128,
            util_file := Some (s ''version = '' @ [39] @ s ''2'' @ [39, 10]),
            trace := [Git [s ''git'', s ''status'', s ''--porcelain''],
                      ReadFile,
                      WriteFile (s ''version = '' @ [39] @ s ''2'' @ [39, 10]),
                      Git [s ''git'', s ''add'', s ''plugin/util.py''],
                      Git [s ''git'', s ''commit'', s ''-m'', s ''Bump version to 2''],
                      Git [s ''git'', s ''tag'', s ''2'']],
            out := [s ''updated plugin/util.py version 1 -> 2'',
                    s ''committed util.py change'',
                    s ''created tag 2'']\<rparr>)"
  by (simp add: main_defs io_defs re_defs demo_world_def demo_args_def git_fails_def char_defs
        Let_def)

text \<open>
  C10. When the status query fails (non-zero exit status) with empty standard output,
  \<open>git_is_clean\<close> answers that the tree is clean and the gate lets the script go on.
  Whatever the output, the answer is the same for every exit status: it is decided by
  the output alone.
\<close>

theorem failed_status_with_empty_output_is_clean:
  "status_rc w \<noteq> 0 \<Longrightarrow> status_out w = [] \<Longrightarrow>
   fst (git_is_clean w) \<and> fst (clean_gate a w) = Inr () \<and>
   (\<forall>rc rc' out'. fst (git_is_clean (w\<lparr>status_rc := rc, status_out := out'\<rparr>)) =
                  fst (git_is_clean (w\<lparr>status_rc := rc', status_out := out'\<rparr>)))"
  by (simp add: clean_gate_def git_is_clean_def strip_def)

theorem failed_status_with_empty_output_is_clean_witness:
  "status_rc ((demo_world (s ''x''))\<lparr>status_rc := 128\<rparr>) \<noteq> 0 \<and>
   status_out ((demo_world (s ''x''))\<lparr>status_rc := 128\<rparr>) = [] \<and>
   fst (git_is_clean ((demo_world (s ''x''))\<lparr>status_rc := 128\<rparr>)) \<and>
   fst (clean_gate (demo_args (s ''1.0'')) ((demo_world (s ''x''))\<lparr>status_rc := 128\<rparr>)) = Inr ()"
  using failed_status_with_empty_output_is_clean
    [of "(demo_world (s ''x''))\<lparr>status_rc := 128\<rparr>" "demo_args (s ''1.0'')"]
  by (simp add: demo_world_def)


section \<open>The version entry of the file\<close>

text \<open>
  C3. When the text read from the file matches neither pattern, \<open>main\<close> ends with exit
  status 2 once the gate is passed; the only event after the gate is the reading of the
  file, the only output is the diagnostic on the error stream, which names the path of
  the file, and the file holds the characters it held before. The text searched is the
  one \<open>read_text\<close> returns, with line endings translated.
\<close>

theorem no_version_entry_exits_2:
  "clean_gate a w = (Inr (), w0) \<Longrightarrow> util_file w0 = Some raw \<Longrightarrow>
   search assign_re (universal_newlines False raw) = None \<Longrightarrow>
   search dict_re (universal_newlines False raw) = None \<Longrightarrow>
   main a w =
     (2, w0\<lparr>trace := trace w0 @ [ReadFile],
            err := err w0 @
              [Text (s ''failed to locate a '' @ [39] @ s ''version'' @ [39] @ s '' entry in '' @
                     util_path w0 @ s ''; please update manually'')]\<rparr>) \<and>
   util_file (snd (main a w)) = Some raw"
  by (simp add: main_def main_body_def update_stage_def update_util_version_def io_defs)

theorem no_version_entry_exits_2_witness:
  "main (demo_args (s ''1.0'')) (demo_world (s ''ver = '' @ [39] @ s ''1'' @ [39, 13, 10])) =
     (2, (demo_world (s ''ver = '' @ [39] @ s ''1'' @ [39, 13, 10]))
           \<lparr>trace := [Git [s ''git'', s ''status'', s ''--porcelain''], ReadFile],
            err := [Text (s ''failed to locate a '' @ [39] @ s ''version'' @ [39] @
                          s '' entry in plugin/util.py; please update manually'')]\<rparr>) \<and>
   util_file (snd (main (demo_args (s ''1.0''))
                        (demo_world (s ''ver = '' @ [39] @ s ''1'' @ [39, 13, 10])))) =
     Some (s ''ver = '' @ [39] @ s ''1'' @ [39, 13, 10])"
  using no_version_entry_exits_2
    [of "demo_args (s ''1.0'')" "demo_world (s ''ver = '' @ [39] @ s ''1'' @ [39, 13, 10])"
        "(demo_world (s ''ver = '' @ [39] @ s ''1'' @ [39, 13, 10]))
           \<lparr>trace := [Git [s ''git'', s ''status'', s ''--porcelain'']]\<rparr>"
        "s ''ver = '' @ [39] @ s ''1'' @ [39, 13, 10]"]
  by (simp add: clean_gate_def io_defs re_defs demo_world_def demo_args_def char_defs Let_def)

text \<open>
  C5. When the assignment pattern matches the text read from the file, that match is
  the one \<open>update_util_version\<close> works on: the result is fixed by the groups of the
  assignment match and does not depend on what the dictionary pattern finds. In the
  example the dictionary entry comes first in the text and is left alone.
\<close>

theorem assignment_form_has_priority:
  "util_file w = Some raw \<Longrightarrow>
   search assign_re (universal_newlines False raw) = Some (pre, gs, post) \<Longrightarrow>
   update_util_version v w =
     (if group gs 3 = v then
        (Inr False, w\<lparr>trace := trace w @ [ReadFile],
                      out := out w @ [s ''util.version already '' @ v]\<rparr>)
      else if \<not> writable w then (Inl OSError, w\<lparr>trace := trace w @ [ReadFile]\<rparr>)
      else if list_ex is_surrogate (pre @ group gs 1 @ group gs 2 @ v @ group gs 4 @ post) then
        (Inl UnicodeEncodeError,
         w\<lparr>util_file := Some [], trace := trace w @ [ReadFile, WriteFile []]\<rparr>)
      else
        (Inr True,
         w\<lparr>util_file := Some (pre @ group gs 1 @ group gs 2 @ v @ group gs 4 @ post),
           trace := trace w @ [ReadFile,
                      WriteFile (pre @ group gs 1 @ group gs 2 @ v @ group gs 4 @ post)],
           out := out w @ [s ''updated '' @ util_path w @ s '' version '' @ group gs 3 @
                           s '' -> '' @ v]\<rparr>))"
  by (simp add: update_util_version_def rewrite_with_def sub1_def repl_def io_defs Let_def)

theorem assignment_form_has_priority_witness:
  "search dict_re (s ''d = {'' @ [34] @ s ''version'' @ [34] @ s '': '' @ [34] @ s ''0'' @ [34] @
                   s ''}'' @ [10] @ s ''version = '' @ [39] @ s ''1'' @ [39, 10]) =
     Some (s ''d = {'',
           [[34] @ s ''version'' @ [34] @ s '': '', [34], s ''0'', [34]],
           s ''}'' @ [10] @ s ''version = '' @ [39] @ s ''1'' @ [39, 10]) \<and>
   update_util_version (s ''2'')
     (demo_world (s ''d = {'' @ [34] @ s ''version'' @ [34] @ s '': '' @ [34] @ s ''0'' @ [34] @
                  s ''}'' @ [10] @ s ''version = '' @ [39] @ s ''1'' @ [39, 10])) =
     (Inr True,
      (demo_world (s ''d = {'' @ [34] @ s ''version'' @ [34] @ s '': '' @ [34] @ s ''0'' @ [34] @
                   s ''}'' @ [10] @ s ''version = '' @ [39] @ s ''1'' @ [39, 10]))
        \<lparr>util_file := Some (s ''d = {'' @ [34] @ s ''version'' @ [34] @ s '': '' @ [34] @ s ''0'' @
                             [34] @ s ''}'' @ [10] @ s ''version = '' @ [39] @ s ''2'' @ [39, 10]),
         trace := [ReadFile,
                   WriteFile (s ''d = {'' @ [34] @ s ''version'' @ [34] @ s '': '' @ [34] @ s ''0'' @
                              [34] @ s ''}'' @ [10] @ s ''version = '' @ [39] @ s ''2'' @ [39, 10])],
         out := [s ''updated plugin/util.py version 1 -> 2'']\<rparr>)"
  using assignment_form_has_priority
    [of "demo_world (s ''d = {'' @ [34] @ s ''version'' @ [34] @ s '': '' @ [34] @ s ''0'' @ [34] @
                     s ''}'' @ [10] @ s ''version = '' @ [39] @ s ''1'' @ [39, 10])"
        "s ''d = {'' @ [34] @ s ''version'' @ [34] @ s '': '' @ [34] @ s ''0'' @ [34] @
         s ''}'' @ [10] @ s ''version = '' @ [39] @ s ''1'' @ [39, 10]"
        "s ''d = {'' @ [34] @ s ''version'' @ [34] @ s '': '' @ [34] @ s ''0'' @ [34] @ s ''}'' @ [10]"
        "[s ''version = '', [39], s ''1'', [39]]"
        "[10]"
        "s ''2''"]
  by (simp add: group_def io_defs re_defs demo_world_def char_defs Let_def)

text \<open>
  C7. When the value captured by the pattern that applies equals the requested version,
  the file is read and not written, the script prints that the version is already set
  and that there is no change to commit, no \<open>git add\<close> or \<open>git commit\<close> is issued, and
  the next command is the creation of the tag; only the two pushes can follow it.
\<close>

theorem unchanged_version_skips_commit:
  "clean_gate a w = (Inr (), w0) \<Longrightarrow> util_file w0 = Some raw \<Longrightarrow>
   search assign_re (universal_newlines False raw) = Some (pre, gs, post) \<or>
   search assign_re (universal_newlines False raw) = None \<and>
   search dict_re (universal_newlines False raw) = Some (pre, gs, post) \<Longrightarrow>
   group gs 3 = version a \<Longrightarrow>
   \<exists>rest outs.
     trace (snd (main a w)) = trace w0 @ [ReadFile, Git (tag_cmd a)] @ rest \<and>
     set rest \<subseteq> {Git push_head_cmd, Git (push_tag_cmd a)} \<and>
     out (snd (main a w)) =
       out w0 @ [s ''util.version already '' @ version a, s ''no util.py change to commit''] @ outs \<and>
     util_file (snd (main a w)) = Some raw"
  by (auto simp add: stage_defs io_defs Let_def)

theorem unchanged_version_skips_commit_witness:
  "group [s ''version = '', [39], s ''1.0'', [39]] 3 = version (demo_args (s ''1.0'')) \<and>
   trace (snd (main (demo_args (s ''1.0''))
                    (demo_world (s ''version = '' @ [39] @ s ''1.0'' @ [39, 10])))) =
     [Git [s ''git'', s ''status'', s ''--porcelain''], ReadFile, Git [s ''git'', s ''tag'', s ''1.0'']] \<and>
   out (snd (main (demo_args (s ''1.0''))
                  (demo_world (s ''version = '' @ [39] @ s ''1.0'' @ [39, 10])))) =
     [s ''util.version already 1.0'', s ''no util.py change to commit'', s ''created tag 1.0''] \<and>
   util_file (snd (main (demo_args (s ''1.0''))
                        (demo_world (s ''version = '' @ [39] @ s ''1.0'' @ [39, 10])))) =
     Some (s ''version = '' @ [39] @ s ''1.0'' @ [39, 10])"
  using unchanged_version_skips_commit
    [of "demo_args (s ''1.0'')" "demo_world (s ''version = '' @ [39] @ s ''1.0'' @ [39, 10])"
        "(demo_world (s ''version = '' @ [39] @ s ''1.0'' @ [39, 10]))
           \<lparr>trace := [Git [s ''git'', s ''status'', s ''--porcelain'']]\<rparr>"
        "s ''version = '' @ [39] @ s ''1.0'' @ [39, 10]"
        "[]" "[s ''version = '', [39], s ''1.0'', [39]]" "[10]"]
  by (simp add: main_defs io_defs re_defs demo_world_def demo_args_def char_defs Let_def)

text \<open>
  C2, as the code has it. Neither pattern has a back-reference: group 2 and group 4 are
  each one character of the class \<open>['\"]\<close>, chosen independently. Every match of either
  pattern is a first group, a quote character, a non-empty value without quote
  character, and a quote character; the two quote characters need not be the same.
\<close>

theorem recognised_entry_is_quoted:
  "search assign_re txt = Some (pre, gs, post) \<or> search dict_re txt = Some (pre, gs, post) \<Longrightarrow>
   \<exists>g1 qa v qb. gs = [g1, [qa], v, [qb]] \<and> is_quote qa \<and> is_quote qb \<and> v \<noteq> [] \<and>
     (\<forall>c\<in>set v. \<not> is_quote c) \<and> txt = pre @ g1 @ [qa] @ v @ [qb] @ post"
  using search_structure [of assign_re "txt" pre gs post] search_structure [of dict_re "txt" pre gs post]
  by blast

theorem recognised_entry_is_quoted_witness:
  "search assign_re (s ''version = '' @ [39] @ s ''1'' @ [34, 10]) =
     Some ([], [s ''version = '', [39], s ''1'', [34]], [10]) \<and>
   (\<exists>g1 qa v qb. [s ''version = '', [39], s ''1'', [34]] = [g1, [qa], v, [qb]] \<and>
      is_quote qa \<and> is_quote qb \<and> v \<noteq> [] \<and> (\<forall>c\<in>set v. \<not> is_quote c) \<and>
      s ''version = '' @ [39] @ s ''1'' @ [34, 10] = [] @ g1 @ [qa] @ v @ [qb] @ [10])"
  using recognised_entry_is_quoted
    [of "s ''version = '' @ [39] @ s ''1'' @ [34, 10]" "[]"
        "[s ''version = '', [39], s ''1'', [34]]" "[10]"]
  by (simp add: re_defs char_defs)

text \<open>
  C2 as the specification states it fails: the assignment pattern matches
  \<open>version = '1"\<close> and the dictionary pattern matches \<open>"version': "1'\<close>, and
  \<open>update_util_version\<close> rewrites the first of them.
\<close>

theorem mismatched_quotes_are_recognised:
  "search assign_re (s ''version = '' @ [39] @ s ''1'' @ [34, 10]) =
     Some ([], [s ''version = '', [39], s ''1'', [34]], [10]) \<and>
   search dict_re ([34] @ s ''version'' @ [39] @ s '': '' @ [34] @ s ''1'' @ [39, 10]) =
     Some ([], [[34] @ s ''version'' @ [39] @ s '': '', [34], s ''1'', [39]], [10]) \<and>
   update_util_version (s ''2'') (demo_world (s ''version = '' @ [39] @ s ''1'' @ [34, 10])) =
     (Inr True,
      (demo_world (s ''version = '' @ [39] @ s ''1'' @ [34, 10]))
        \<lparr>util_file := Some (s ''version = '' @ [39] @ s ''2'' @ [34, 10]),
         trace := [ReadFile, WriteFile (s ''version = '' @ [39] @ s ''2'' @ [34, 10])],
         out := [s ''updated plugin/util.py version 1 -> 2'']\<rparr>)"
  by (simp add: update_util_version_def rewrite_with_def sub1_def repl_def group_def
        io_defs re_defs demo_world_def char_defs Let_def)

text \<open>
  C6, as the code has it. When \<open>update_util_version\<close> reports a change, the text written
  is the text read, in which \<open>\r\n\<close> and \<open>\r\<close> of the file have become \<open>\n\<close>, with the value of
  the first match of the applicable pattern replaced by the new version: the text before
  the match, group 1, the two quote characters and the text after the match are those
  of the text read. For a file without carriage return the text read is the content of
  the file, which then changes in the value only.
\<close>

theorem rewrite_changes_value_only:
  "util_file w = Some raw \<Longrightarrow> update_util_version v w = (Inr True, w') \<Longrightarrow>
   \<exists>pre g1 qa cur qb post.
     (search assign_re (universal_newlines False raw) = Some (pre, [g1, [qa], cur, [qb]], post) \<or>
      search assign_re (universal_newlines False raw) = None \<and>
      search dict_re (universal_newlines False raw) = Some (pre, [g1, [qa], cur, [qb]], post)) \<and>
     universal_newlines False raw = pre @ g1 @ [qa] @ cur @ [qb] @ post \<and>
     util_file w' = Some (pre @ g1 @ [qa] @ v @ [qb] @ post) \<and>
     trace w' = trace w @ [ReadFile, WriteFile (pre @ g1 @ [qa] @ v @ [qb] @ post)] \<and>
     (13 \<notin> set raw \<longrightarrow> raw = pre @ g1 @ [qa] @ cur @ [qb] @ post)"
proof -
  assume fl: "util_file w = Some raw" and upd: "update_util_version v w = (Inr True, w')"
  define tx where "tx = universal_newlines False raw"
  define w1 where "w1 = log_event ReadFile w"
  have tr: "trace w1 = trace w @ [ReadFile]" by (simp add: w1_def log_event_def)
  show ?thesis
  proof (cases "search assign_re tx")
    case (Some m)
    obtain pre gs post where m: "m = (pre, gs, post)" by (cases m)
    from search_structure [OF Some [unfolded m]] obtain g1 qa cur qb where
      gs: "gs = [g1, [qa], cur, [qb]]" and dec: "tx = pre @ g1 @ [qa] @ cur @ [qb] @ post"
      by blast
    from upd fl Some m have "rewrite_with assign_re gs tx v w1 = (Inr True, w')"
      by (simp add: update_util_version_def read_text_def tx_def w1_def)
    from rewrite_with_True [OF this [unfolded gs] Some [unfolded m gs]] tr dec Some m gs
    show ?thesis
      unfolding tx_def [symmetric]
      by (auto simp: universal_newlines_id tx_def)
  next
    case None
    show ?thesis
    proof (cases "search dict_re tx")
      case (Some m)
      obtain pre gs post where m: "m = (pre, gs, post)" by (cases m)
      from search_structure [OF Some [unfolded m]] obtain g1 qa cur qb where
        gs: "gs = [g1, [qa], cur, [qb]]" and dec: "tx = pre @ g1 @ [qa] @ cur @ [qb] @ post"
        by blast
      from upd fl None Some m have "rewrite_with dict_re gs tx v w1 = (Inr True, w')"
        by (simp add: update_util_version_def read_text_def tx_def w1_def)
      from rewrite_with_True [OF this [unfolded gs] Some [unfolded m gs]] tr dec None Some m gs
      show ?thesis
        unfolding tx_def [symmetric]
        by (auto simp: universal_newlines_id tx_def)
    next
      case dnone: None
      from upd fl None dnone show ?thesis
        by (simp add: update_util_version_def read_text_def tx_def)
    qed
  qed
qed

theorem rewrite_changes_value_only_witness:
  "\<exists>pre g1 qa cur qb post.
      s ''#'' @ [10] @ s ''version = '' @ [39] @ s ''1'' @ [39, 10] =
        pre @ g1 @ [qa] @ cur @ [qb] @ post \<and>
      util_file (snd (update_util_version (s ''2'')
          (demo_world (s ''#'' @ [10] @ s ''version = '' @ [39] @ s ''1'' @ [39, 10])))) =
        Some (pre @ g1 @ [qa] @ s ''2'' @ [qb] @ post)"
proof -
  have f: "util_file (demo_world (s ''#'' @ [10] @ s ''version = '' @ [39] @ s ''1'' @ [39, 10])) =
             Some (s ''#'' @ [10] @ s ''version = '' @ [39] @ s ''1'' @ [39, 10])"
    by (simp add: demo_world_def)
  have u: "update_util_version (s ''2'')
             (demo_world (s ''#'' @ [10] @ s ''version = '' @ [39] @ s ''1'' @ [39, 10])) =
           (Inr True,
            (demo_world (s ''#'' @ [10] @ s ''version = '' @ [39] @ s ''1'' @ [39, 10]))
              \<lparr>util_file := Some (s ''#'' @ [10] @ s ''version = '' @ [39] @ s ''2'' @ [39, 10]),
               trace := [ReadFile,
                         WriteFile (s ''#'' @ [10] @ s ''version = '' @ [39] @ s ''2'' @ [39, 10])],
               out := [s ''updated plugin/util.py version 1 -> 2'']\<rparr>)"
    by (simp add: update_util_version_def rewrite_with_def sub1_def repl_def group_def
          io_defs re_defs demo_world_def char_defs Let_def)
  have c: "13 \<notin> set (s ''#'' @ [10] @ s ''version = '' @ [39] @ s ''1'' @ [39, 10])"
    by (simp add: s_def)
  from rewrite_changes_value_only [OF f u] c show ?thesis
    unfolding u snd_conv by blast
qed

text \<open>
  C6 as the specification states it fails for a file with \<open>\r\n\<close> line endings: the text
  before and after the match is written back with \<open>\n\<close> line endings.
\<close>

theorem carriage_returns_are_not_carried_over:
  "update_util_version (s ''2'')
     (demo_world (s ''# x'' @ [13, 10] @ s ''version = '' @ [39] @ s ''1'' @ [39, 13, 10])) =
     (Inr True,
      (demo_world (s ''# x'' @ [13, 10] @ s ''version = '' @ [39] @ s ''1'' @ [39, 13, 10]))
        \<lparr>util_file := Some (s ''# x'' @ [10] @ s ''version = '' @ [39] @ s ''2'' @ [39, 10]),
         trace := [ReadFile,
                   WriteFile (s ''# x'' @ [10] @ s ''version = '' @ [39] @ s ''2'' @ [39, 10])],
         out := [s ''updated plugin/util.py version 1 -> 2'']\<rparr>) \<and>
   s ''# x'' @ [10] @ s ''version = '' @ [39] @ s ''2'' @ [39, 10] \<noteq>
   s ''# x'' @ [13, 10] @ s ''version = '' @ [39] @ s ''2'' @ [39, 13, 10]"
  by (simp add: update_util_version_def rewrite_with_def sub1_def repl_def group_def
        io_defs re_defs demo_world_def char_defs Let_def)

text \<open>
  C9, as the code has it. For a requested version that is not empty and holds no quote
  character, no line feed and no carriage return, a second \<open>update_util_version\<close> after a
  first one that succeeded reads the file, finds the requested version as the current
  value, reports it and returns \<open>False\<close>: nothing is written and the file is the one the
  first application left.
\<close>

theorem rewrite_is_idempotent:
  assumes fl: "util_file w = Some raw"
    and upd: "update_util_version v w = (Inr changed, w1)"
    and v: "v \<noteq> []" "list_all (\<lambda>c. \<not> is_quote c) v" "list_all (\<lambda>c. c \<noteq> 10) v"
           "list_all (\<lambda>c. c \<noteq> 13) v"
  shows "update_util_version v w1 =
           (Inr False, w1\<lparr>trace := trace w1 @ [ReadFile],
                          out := out w1 @ [s ''util.version already '' @ v]\<rparr>)"
proof -
  define tx where "tx = universal_newlines False raw"
  define w0 where "w0 = log_event ReadFile w"
  have f0: "util_file w0 = Some raw" using fl by (simp add: w0_def log_event_def)
  have nocr: "13 \<notin> set tx" unfolding tx_def by (rule universal_newlines_no_cr)
  show ?thesis
  proof (cases "search assign_re tx")
    case (Some m)
    obtain pre gs post where m: "m = (pre, gs, post)" by (cases m)
    note sa = Some [unfolded m]
    from search_structure [OF sa] obtain g1 qa cur qb where
      gs: "gs = [g1, [qa], cur, [qb]]" and dec: "tx = pre @ g1 @ [qa] @ cur @ [qb] @ post"
      by blast
    from upd fl sa have rw: "rewrite_with assign_re gs tx v w0 = (Inr changed, w1)"
      by (simp add: update_util_version_def read_text_def tx_def w0_def)
    from rewrite_with_result [OF rw sa] f0
    consider (same) "cur = v" "util_file w1 = Some raw"
      | (new) "cur \<noteq> v" "util_file w1 = Some (pre @ g1 @ [qa] @ v @ [qb] @ post)"
      by (auto simp: gs group_def)
    then show ?thesis
    proof cases
      case same
      show ?thesis
        by (rule update_noop [OF same(2), of pre gs post])
           (use sa same(1) in \<open>simp_all add: tx_def gs group_def\<close>)
    next
      case new
      have id: "universal_newlines False (pre @ g1 @ qa # v @ qb # post) =
                pre @ g1 @ qa # v @ qb # post"
        using universal_newlines_id [OF no_cr_parts [OF nocr [unfolded dec] v(4)]] by simp
      from sa have "search assign_re (pre @ g1 @ qa # cur @ qb # post) =
                      Some (pre, [g1, [qa], cur, [qb]], post)"
        by (simp add: dec gs)
      from assign_stable [OF this v(1,2)]
      have "search assign_re (pre @ g1 @ [qa] @ v @ [qb] @ post) =
              Some (pre, [g1, [qa], v, [qb]], post)" by simp
      then show ?thesis
        by (intro update_noop [OF new(2), of pre "[g1, [qa], v, [qb]]" post])
           (simp_all add: id group_def)
    qed
  next
    case None
    show ?thesis
    proof (cases "search dict_re tx")
      case dnone: None
      from upd fl None dnone show ?thesis
        by (simp add: update_util_version_def read_text_def tx_def)
    next
      case (Some m)
      obtain pre gs post where m: "m = (pre, gs, post)" by (cases m)
      note sd = Some [unfolded m]
      from search_structure [OF sd] obtain g1 qa cur qb where
        gs: "gs = [g1, [qa], cur, [qb]]" and dec: "tx = pre @ g1 @ [qa] @ cur @ [qb] @ post"
        and q: "is_quote qa" "is_quote qb" and c: "cur \<noteq> []" "\<forall>c\<in>set cur. \<not> is_quote c"
        by blast
      from upd fl None sd have rw: "rewrite_with dict_re gs tx v w0 = (Inr changed, w1)"
        by (simp add: update_util_version_def read_text_def tx_def w0_def)
      from rewrite_with_result [OF rw sd] f0
      consider (same) "cur = v" "util_file w1 = Some raw"
        | (new) "cur \<noteq> v" "util_file w1 = Some (pre @ g1 @ [qa] @ v @ [qb] @ post)"
        by (auto simp: gs group_def)
      then show ?thesis
      proof cases
        case same
        show ?thesis
          by (rule update_noop [OF same(2), of pre gs post])
             (use None sd same(1) in \<open>simp_all add: tx_def gs group_def\<close>)
      next
        case new
        have id: "universal_newlines False (pre @ g1 @ qa # v @ qb # post) =
                  pre @ g1 @ qa # v @ qb # post"
          using universal_newlines_id [OF no_cr_parts [OF nocr [unfolded dec] v(4)]] by simp
        from sd have "search dict_re (pre @ g1 @ qa # cur @ qb # post) =
                        Some (pre, [g1, [qa], cur, [qb]], post)"
          by (simp add: dec gs)
        from dict_stable [OF this v(1,2)]
        have d': "search dict_re (pre @ g1 @ qa # v @ qb # post) =
                Some (pre, [g1, [qa], v, [qb]], post)" .
        from None have "search assign_re ((pre @ g1) @ qa # cur @ qb # post) = None"
          by (simp add: dec)
        from assign_none_stable [OF this q c(1) _ v(2,3)] c(2)
        have a': "search assign_re (pre @ g1 @ qa # v @ qb # post) = None"
          by (simp add: list_all_iff)
        show ?thesis
          by (intro update_noop [OF new(2), of pre "[g1, [qa], v, [qb]]" post])
             (simp_all add: id group_def a' d')
      qed
    qed
  qed
qed

theorem rewrite_is_idempotent_witness:
  "update_util_version (s ''2'') (demo_world (s ''version = '' @ [39] @ s ''1'' @ [39, 10])) =
     (Inr True,
      (demo_world (s ''version = '' @ [39] @ s ''1'' @ [39, 10]))
        \<lparr>util_file := Some (s ''version = '' @ [39] @ s ''2'' @ [39, 10]),
         trace := [ReadFile, WriteFile (s ''version = '' @ [39] @ s ''2'' @ [39, 10])],
         out := [s ''updated plugin/util.py version 1 -> 2'']\<rparr>) \<and>
   update_util_version (s ''2'')
     ((demo_world (s ''version = '' @ [39] @ s ''1'' @ [39, 10]))
        \<lparr>util_file := Some (s ''version = '' @ [39] @ s ''2'' @ [39, 10]),
         trace := [ReadFile, WriteFile (s ''version = '' @ [39] @ s ''2'' @ [39, 10])],
         out := [s ''updated plugin/util.py version 1 -> 2'']\<rparr>) =
     (Inr False,
      (demo_world (s ''version = '' @ [39] @ s ''1'' @ [39, 10]))
        \<lparr>util_file := Some (s ''version = '' @ [39] @ s ''2'' @ [39, 10]),
         trace := [ReadFile, WriteFile (s ''version = '' @ [39] @ s ''2'' @ [39, 10]), ReadFile],
         out := [s ''updated plugin/util.py version 1 -> 2'', s ''util.version already 2'']\<rparr>)"
  using rewrite_is_idempotent
    [of "demo_world (s ''version = '' @ [39] @ s ''1'' @ [39, 10])"
        "s ''version = '' @ [39] @ s ''1'' @ [39, 10]"
        "s ''2''" True
        "(demo_world (s ''version = '' @ [39] @ s ''1'' @ [39, 10]))
           \<lparr>util_file := Some (s ''version = '' @ [39] @ s ''2'' @ [39, 10]),
            trace := [ReadFile, WriteFile (s ''version = '' @ [39] @ s ''2'' @ [39, 10])],
            out := [s ''updated plugin/util.py version 1 -> 2'']\<rparr>"]
  by (simp add: update_util_version_def rewrite_with_def sub1_def repl_def group_def
        io_defs re_defs demo_world_def char_defs Let_def)

text \<open>
  C9 as the specification states it fails for a version that holds a quote character:
  after \<open>version = '1'\<close> has become \<open>version = 'a'b'\<close>, the second application captures
  \<open>a\<close>, which is not the requested \<open>a'b\<close>, and writes \<open>version = 'a'b'b'\<close>.
\<close>

theorem quoted_version_is_rewritten_twice:
  "update_util_version (s ''a'' @ [39] @ s ''b'')
     (demo_world (s ''version = '' @ [39] @ s ''1'' @ [39, 10])) =
     (Inr True,
      (demo_world (s ''version = '' @ [39] @ s ''1'' @ [39, 10]))
        \<lparr>util_file := Some (s ''version = '' @ [39] @ s ''a'' @ [39] @ s ''b'' @ [39, 10]),
         trace := [ReadFile,
                   WriteFile (s ''version = '' @ [39] @ s ''a'' @ [39] @ s ''b'' @ [39, 10])],
         out := [s ''updated plugin/util.py version 1 -> a'' @ [39] @ s ''b'']\<rparr>) \<and>
   update_util_version (s ''a'' @ [39] @ s ''b'')
     ((demo_world (s ''version = '' @ [39] @ s ''1'' @ [39, 10]))
        \<lparr>util_file := Some (s ''version = '' @ [39] @ s ''a'' @ [39] @ s ''b'' @ [39, 10]),
         trace := [ReadFile,
                   WriteFile (s ''version = '' @ [39] @ s ''a'' @ [39] @ s ''b'' @ [39, 10])],
         out := [s ''updated plugin/util.py version 1 -> a'' @ [39] @ s ''b'']\<rparr>) =
     (Inr True,
      (demo_world (s ''version = '' @ [39] @ s ''1'' @ [39, 10]))
        \<lparr>util_file :=
           Some (s ''version = '' @ [39] @ s ''a'' @ [39] @ s ''b'' @ [39] @ s ''b'' @ [39, 10]),
         trace := [ReadFile,
                   WriteFile (s ''version = '' @ [39] @ s ''a'' @ [39] @ s ''b'' @ [39, 10]),
                   ReadFile,
                   WriteFile (s ''version = '' @ [39] @ s ''a'' @ [39] @ s ''b'' @ [39] @ s ''b'' @
                              [39, 10])],
         out := [s ''updated plugin/util.py version 1 -> a'' @ [39] @ s ''b'',
                 s ''updated plugin/util.py version a -> a'' @ [39] @ s ''b'']\<rparr>)"
  by (simp add: update_util_version_def rewrite_with_def sub1_def repl_def group_def
        io_defs re_defs demo_world_def char_defs Let_def)

text \<open>
  The other three conditions on the version are needed as well. After an empty version
  the file holds \<open>version = ''\<close>, which neither pattern matches, and the second
  application ends with \<open>SystemExit(2)\<close>. A carriage return in the version is read back as
  a line feed, so the second application sees a different value and writes the file
  again. A line feed in the version can bring a line that the assignment pattern
  matches into a file where only the dictionary pattern matched, and the second
  application rewrites that line.
\<close>

lemma empty_version_is_not_found_again:
  "update_util_version [] (demo_world (s ''version = '' @ [39] @ s ''1'' @ [39, 10])) =
     (Inr True,
      (demo_world (s ''version = '' @ [39] @ s ''1'' @ [39, 10]))
        \<lparr>util_file := Some (s ''version = '' @ [39, 39, 10]),
         trace := [ReadFile, WriteFile (s ''version = '' @ [39, 39, 10])],
         out := [s ''updated plugin/util.py version 1 -> '']\<rparr>) \<and>
   fst (update_util_version []
     ((demo_world (s ''version = '' @ [39] @ s ''1'' @ [39, 10]))
        \<lparr>util_file := Some (s ''version = '' @ [39, 39, 10]),
         trace := [ReadFile, WriteFile (s ''version = '' @ [39, 39, 10])],
         out := [s ''updated plugin/util.py version 1 -> '']\<rparr>)) = Inl (SystemExit 2)"
  by (simp add: update_util_version_def rewrite_with_def sub1_def repl_def group_def
        io_defs re_defs demo_world_def char_defs Let_def)

lemma carriage_return_version_is_written_again:
  "update_util_version [49, 13] (demo_world (s ''version = '' @ [39] @ s ''1'' @ [39, 10])) =
     (Inr True,
      (demo_world (s ''version = '' @ [39] @ s ''1'' @ [39, 10]))
        \<lparr>util_file := Some (s ''version = '' @ [39, 49, 13, 39, 10]),
         trace := [ReadFile, WriteFile (s ''version = '' @ [39, 49, 13, 39, 10])],
         out := [s ''updated plugin/util.py version 1 -> '' @ [49, 13]]\<rparr>) \<and>
   update_util_version [49, 13]
     ((demo_world (s ''version = '' @ [39] @ s ''1'' @ [39, 10]))
        \<lparr>util_file := Some (s ''version = '' @ [39, 49, 13, 39, 10]),
         trace := [ReadFile, WriteFile (s ''version = '' @ [39, 49, 13, 39, 10])],
         out := [s ''updated plugin/util.py version 1 -> '' @ [49, 13]]\<rparr>) =
     (Inr True,
      (demo_world (s ''version = '' @ [39] @ s ''1'' @ [39, 10]))
        \<lparr>util_file := Some (s ''version = '' @ [39, 49, 13, 39, 10]),
         trace := [ReadFile, WriteFile (s ''version = '' @ [39, 49, 13, 39, 10]),
                   ReadFile, WriteFile (s ''version = '' @ [39, 49, 13, 39, 10])],
         out := [s ''updated plugin/util.py version 1 -> '' @ [49, 13],
                 s ''updated plugin/util.py version '' @ [49, 10] @ s '' -> '' @ [49, 13]]\<rparr>)"
  by (simp add: update_util_version_def rewrite_with_def sub1_def repl_def group_def
        io_defs re_defs demo_world_def char_defs Let_def)

lemma line_feed_version_makes_an_assignment:
  "update_util_version (s ''x'' @ [10] @ s ''version='')
     (demo_world ([34] @ s ''version'' @ [34] @ s '':'' @ [34] @ s ''1'' @ [34] @ s '','' @
                  [34] @ s ''a'' @ [34])) =
     (Inr True,
      (demo_world ([34] @ s ''version'' @ [34] @ s '':'' @ [34] @ s ''1'' @ [34] @ s '','' @
                   [34] @ s ''a'' @ [34]))
        \<lparr>util_file := Some ([34] @ s ''version'' @ [34] @ s '':'' @ [34] @ s ''x'' @ [10] @
                             s ''version='' @ [34] @ s '','' @ [34] @ s ''a'' @ [34]),
         trace := [ReadFile,
                   WriteFile ([34] @ s ''version'' @ [34] @ s '':'' @ [34] @ s ''x'' @ [10] @
                              s ''version='' @ [34] @ s '','' @ [34] @ s ''a'' @ [34])],
         out := [s ''updated plugin/util.py version 1 -> x'' @ [10] @ s ''version='']\<rparr>) \<and>
   fst (update_util_version (s ''x'' @ [10] @ s ''version='')
     ((demo_world ([34] @ s ''version'' @ [34] @ s '':'' @ [34] @ s ''1'' @ [34] @ s '','' @
                   [34] @ s ''a'' @ [34]))
        \<lparr>util_file := Some ([34] @ s ''version'' @ [34] @ s '':'' @ [34] @ s ''x'' @ [10] @
                             s ''version='' @ [34] @ s '','' @ [34] @ s ''a'' @ [34]),
         trace := [ReadFile,
                   WriteFile ([34] @ s ''version'' @ [34] @ s '':'' @ [34] @ s ''x'' @ [10] @
                              s ''version='' @ [34] @ s '','' @ [34] @ s ''a'' @ [34])],
         out := [s ''updated plugin/util.py version 1 -> x'' @ [10] @ s ''version='']\<rparr>)) =
     Inr True"
  by (simp add: update_util_version_def rewrite_with_def sub1_def repl_def group_def
        io_defs re_defs demo_world_def char_defs Let_def)


section \<open>Tagging and pushing\<close>

text \<open>
  C1, as the code has it. For an annotated tag the command is
  \<open>git tag -a NAME -m "Release NAME"\<close>, where \<open>NAME\<close> is the tag name: the version when
  \<open>--tag-name\<close> is absent or empty, the value of \<open>--tag-name\<close> otherwise. The message
  holds the tag name, not the version.
\<close>

theorem annotated_message_is_release_tag_name:
  "annotated a \<Longrightarrow>
   tag_cmd a = [s ''git'', s ''tag'', s ''-a'', the_tag_name a, s ''-m'',
                s ''Release '' @ the_tag_name a] \<and>
   trace (snd (tag_stage a w)) = trace w @ [Git (tag_cmd a)] \<and>
   (tag_name a = None \<or> tag_name a = Some [] \<longrightarrow> the_tag_name a = version a) \<and>
   (\<forall>t. tag_name a = Some t \<and> t \<noteq> [] \<longrightarrow> the_tag_name a = t)"
  by (auto simp add: tag_stage_def tag_cmd_def the_tag_name_def io_defs Let_def)

theorem annotated_message_is_release_tag_name_witness:
  "annotated ((demo_args (s ''1.0''))\<lparr>annotated := True, tag_name := Some (s ''rel'')\<rparr>) \<and>
   trace (snd (tag_stage ((demo_args (s ''1.0''))\<lparr>annotated := True, tag_name := Some (s ''rel'')\<rparr>)
                         (demo_world (s ''x'')))) =
     [Git [s ''git'', s ''tag'', s ''-a'', s ''rel'', s ''-m'', s ''Release '' @ s ''rel'']]"
  using annotated_message_is_release_tag_name
    [of "(demo_args (s ''1.0''))\<lparr>annotated := True, tag_name := Some (s ''rel'')\<rparr>"
        "demo_world (s ''x'')"]
  by (simp add: demo_args_def demo_world_def s_def)

text \<open>
  C1 as the specification states it fails: \<open>tag_release.py 1.0 --annotated --tag-name rel\<close>
  creates the tag with the message \<open>Release rel\<close>, in which the version \<open>1.0\<close> does not
  occur.
\<close>

theorem annotated_message_omits_version:
  "annotated ((demo_args (s ''1.0''))\<lparr>annotated := True, tag_name := Some (s ''rel'')\<rparr>) \<and>
   main ((demo_args (s ''1.0''))\<lparr>annotated := True, tag_name := Some (s ''rel'')\<rparr>)
        (demo_world (s ''version = '' @ [39] @ s ''1.0'' @ [39, 10])) =
     (0, (demo_world (s ''version = '' @ [39] @ s ''1.0'' @ [39, 10]))
           \<lparr>trace := [Git [s ''git'', s ''status'', s ''--porcelain''],
                      ReadFile,
                      Git [s ''git'', s ''tag'', s ''-a'', s ''rel'', s ''-m'', s ''Release rel'']],
            out := [s ''util.version already 1.0'',
                    s ''no util.py change to commit'',
                    s ''created tag rel'']\<rparr>) \<and>
   \<not> sublist (s ''1.0'') (s ''Release rel'')"
  apply (intro conjI)
    apply (simp add: demo_args_def)
   apply (simp add: main_defs io_defs re_defs demo_world_def demo_args_def char_defs Let_def)
  apply (simp add: char_defs sublist_Cons_right prefix_Cons)
  done

text \<open>
  C8. With \<open>--push\<close>, once the tag is created, \<open>git push origin HEAD\<close> is issued and,
  when it succeeds, \<open>git push origin NAME\<close> for the tag. When the push of the tag fails
  after the push of the head, \<open>main\<close> ends with exit status 1; the failed push is the last
  event, and the only output after it is the report of the failure.
\<close>

theorem push_head_then_tag:
  "push a \<Longrightarrow> clean_gate a w = (Inr (), w0) \<Longrightarrow> update_stage a w0 = (Inr changed, w1) \<Longrightarrow>
   commit_stage a changed w1 = (Inr (), w2) \<Longrightarrow> tag_stage a w2 = (Inr (), w3) \<Longrightarrow>
   push_head_cmd = [s ''git'', s ''push'', s ''origin'', s ''HEAD''] \<and>
   push_tag_cmd a = [s ''git'', s ''push'', s ''origin'', the_tag_name a] \<and>
   main a w =
     (if git_rc w3 (trace w3) push_head_cmd \<noteq> 0 then
        (1, w3\<lparr>trace := trace w3 @ [Git push_head_cmd],
               err := err w3 @ [TextExc (s ''git command failed:'')
                 (CalledProcessError push_head_cmd (git_rc w3 (trace w3) push_head_cmd))]\<rparr>)
      else if git_rc w3 (trace w3 @ [Git push_head_cmd]) (push_tag_cmd a) \<noteq> 0 then
        (1, w3\<lparr>trace := trace w3 @ [Git push_head_cmd, Git (push_tag_cmd a)],
               err := err w3 @ [TextExc (s ''git command failed:'')
                 (CalledProcessError (push_tag_cmd a)
                    (git_rc w3 (trace w3 @ [Git push_head_cmd]) (push_tag_cmd a)))]\<rparr>)
      else
        (0, w3\<lparr>trace := trace w3 @ [Git push_head_cmd, Git (push_tag_cmd a)],
               out := out w3 @ [s ''pushed HEAD and tag to origin'']\<rparr>))"
  by (simp add: main_def main_body_def git_stages_def push_stage_def push_head_cmd_def
        push_tag_cmd_def io_defs Let_def)

theorem push_head_then_tag_witness:
  "push ((demo_args (s ''1.0''))\<lparr>push := True\<rparr>) \<and>
   main ((demo_args (s ''1.0''))\<lparr>push := True\<rparr>)
        ((demo_world (s ''version = '' @ [39] @ s ''1.0'' @ [39, 10]))
           \<lparr>git_rc := (\<lambda>h c. if c = [s ''git'', s ''push'', s ''origin'', s ''1.0''] then 1 else 0)\<rparr>) =
     (1, (demo_world (s ''version = '' @ [39] @ s ''1.0'' @ [39, 10]))
           \<lparr>git_rc := (\<lambda>h c. if c = [s ''git'', s ''push'', s ''origin'', s ''1.0''] then 1 else 0),
            trace := [Git [s ''git'', s ''status'', s ''--porcelain''],
                      ReadFile,
                      Git [s ''git'', s ''tag'', s ''1.0''],
                      Git [s ''git'', s ''push'', s ''origin'', s ''HEAD''],
                      Git [s ''git'', s ''push'', s ''origin'', s ''1.0'']],
            out := [s ''util.version already 1.0'',
                    s ''no util.py change to commit'',
                    s ''created tag 1.0''],
            err := [TextExc (s ''git command failed:'')
                      (CalledProcessError [s ''git'', s ''push'', s ''origin'', s ''1.0''] 1)]\<rparr>)"
  using push_head_then_tag
    [of "(demo_args (s ''1.0''))\<lparr>push := True\<rparr>"
        "(demo_world (s ''version = '' @ [39] @ s ''1.0'' @ [39, 10]))
           \<lparr>git_rc := (\<lambda>h c. if c = [s ''git'', s ''push'', s ''origin'', s ''1.0''] then 1 else 0)\<rparr>"
        "(demo_world (s ''version = '' @ [39] @ s ''1.0'' @ [39, 10]))
           \<lparr>git_rc := (\<lambda>h c. if c = [s ''git'', s ''push'', s ''origin'', s ''1.0''] then 1 else 0),
            trace := [Git [s ''git'', s ''status'', s ''--porcelain'']]\<rparr>"
        False
        "(demo_world (s ''version = '' @ [39] @ s ''1.0'' @ [39, 10]))
           \<lparr>git_rc := (\<lambda>h c. if c = [s ''git'', s ''push'', s ''origin'', s ''1.0''] then 1 else 0),
            trace := [Git [s ''git'', s ''status'', s ''--porcelain''], ReadFile],
            out := [s ''util.version already 1.0'']\<rparr>"
        "(demo_world (s ''version = '' @ [39] @ s ''1.0'' @ [39, 10]))
           \<lparr>git_rc := (\<lambda>h c. if c = [s ''git'', s ''push'', s ''origin'', s ''1.0''] then 1 else 0),
            trace := [Git [s ''git'', s ''status'', s ''--porcelain''], ReadFile],
            out := [s ''util.version already 1.0'', s ''no util.py change to commit'']\<rparr>"
        "(demo_world (s ''version = '' @ [39] @ s ''1.0'' @ [39, 10]))
           \<lparr>git_rc := (\<lambda>h c. if c = [s ''git'', s ''push'', s ''origin'', s ''1.0''] then 1 else 0),
            trace := [Git [s ''git'', s ''status'', s ''--porcelain''], ReadFile,
                      Git [s ''git'', s ''tag'', s ''1.0'']],
            out := [s ''util.version already 1.0'', s ''no util.py change to commit'',
                    s ''created tag 1.0'']\<rparr>"]
  by (simp add: main_defs io_defs re_defs demo_world_def demo_args_def char_defs Let_def)

end
